theory Spec2Isabelle
  imports Complex_Main "HOL-Library.Multiset"
begin

section \<open>Data consumed by the callback\<close>

text \<open>
  The branch-and-cut callback of \<^verbatim>\<open>src/solver/callback.cpp\<close> reads an immutable
  \<^verbatim>\<open>Data\<close> object (nodes, demands, VNF types, run parameters and a few helper
  functions) and talks to the solver through a \<^verbatim>\<open>Context\<close>.  The C++ type
  \<^verbatim>\<open>double\<close> is modelled by \<^typ>\<open>real\<close>: arithmetic is exact, rounding is not
  modelled.  The counters are C++ \<^verbatim>\<open>int\<close>s that only ever grow by one; they are
  modelled by \<^typ>\<open>int\<close> (signed overflow is undefined in C++ and is not modelled).
  Node, demand, section and VNF identifiers are indexes, modelled by \<^typ>\<open>nat\<close>.
\<close>

record Node =
  getCapacity :: real
  getNodeAvailability :: real

record Vnf =
  getVnfId :: nat
  getConsumption :: real

record Demand =
  getVNFs :: "nat list"
  getBandwidth :: real
  getAvailability :: real

text \<open>\<^verbatim>\<open>getNbVNFs()\<close> and \<^verbatim>\<open>getVNF_i(i)\<close> of a demand.\<close>

definition getNbVNFs :: "Demand \<Rightarrow> nat" where
  "getNbVNFs dem = length (getVNFs dem)"

definition getVNF_i :: "Demand \<Rightarrow> nat \<Rightarrow> nat" where
  "getVNF_i dem i = getVNFs dem ! i"

datatype Node_Cover_Cuts = NODE_COVER_OFF | NODE_COVER_ON
datatype Chain_Cover_Cuts = CHAIN_COVER_OFF | CHAIN_COVER_ON
datatype Availability_Usercuts = AVAILABILITY_USERCUTS_OFF | AVAILABILITY_USERCUTS_ON
datatype VNF_Lower_Bound_Cuts = VNF_LOWER_BOUND_CUTS_OFF | VNF_LOWER_BOUND_CUTS_ON
datatype Section_Failure_Cuts = SECTION_FAILURE_CUTS_OFF | SECTION_FAILURE_CUTS_ON
datatype Approximation_Type =
  APPROXIMATION_TYPE_RESTRICTION | APPROXIMATION_TYPE_NONE | APPROXIMATION_TYPE_RELAXATION
datatype Heuristic = HEURISTIC_OFF | HEURISTIC_ON

record Input =
  getNodeCover :: Node_Cover_Cuts
  getChainCover :: Chain_Cover_Cuts
  getAvailabilityUsercuts :: Availability_Usercuts
  getVnfLowerBoundCuts :: VNF_Lower_Bound_Cuts
  getSectionFailureCuts :: Section_Failure_Cuts
  getApproximationType :: Approximation_Type
  getHeuristic :: Heuristic

text \<open>
  The class \<^verbatim>\<open>Data\<close> (\<^verbatim>\<open>instance/data.hpp\<close>) is not part of the sources at hand;
  the callback only uses its getters, which are the fields below.  \<open>graphNodes\<close> is the
  sequence of node identifiers in the order in which \<^verbatim>\<open>NodeIt\<close> visits the graph
  (\<^verbatim>\<open>data.getNodeId(n)\<close> for each \<^verbatim>\<open>n\<close>).  The two overloads of \<^verbatim>\<open>getVnfLB\<close> are
  \<open>getVnfLB\<close> (required availability, number of sections) and \<open>getVnfLB_U\<close> (node set,
  number of sections, required availability).
\<close>

record Data =
  getInput :: Input
  graphNodes :: "nat list"
  getNode :: "nat \<Rightarrow> Node"
  getNbVnfs :: nat
  getVnf :: "nat \<Rightarrow> Vnf"
  getDemands :: "Demand list"
  getPlacementCost :: "Node \<Rightarrow> Vnf \<Rightarrow> real"
  getAvailNodeRank :: "nat list"
  getNodeRankPosition :: "nat \<Rightarrow> int"
  getMinNbNodes :: "real \<Rightarrow> real \<Rightarrow> int"
  getVnfLB :: "real \<Rightarrow> nat \<Rightarrow> int"
  getVnfLB_U :: "bool list \<Rightarrow> nat \<Rightarrow> real \<Rightarrow> real"
  getFailureProb :: "nat list \<Rightarrow> real"
  getChainAvailability :: "real list \<Rightarrow> real"

definition getNbDemands :: "Data \<Rightarrow> nat" where
  "getNbDemands d = length (getDemands d)"

definition getDemand :: "Data \<Rightarrow> nat \<Rightarrow> Demand" where
  "getDemand d k = getDemands d ! k"

definition getNbNodes :: "Data \<Rightarrow> nat" where
  "getNbNodes d = length (graphNodes d)"

text \<open>\<^verbatim>\<open>data.getNode(v).getAvailability()\<close>.\<close>

definition nodeAvail :: "Data \<Rightarrow> nat \<Rightarrow> real" where
  "nodeAvail d v = getNodeAvailability (getNode d v)"

text \<open>
  \<^verbatim>\<open>data.getDemand(k).getBandwidth() * data.getVnf(f).getConsumption()\<close>, the capacity
  that section \<open>i\<close> of demand \<open>k\<close> takes on the node that hosts it.
\<close>

definition reqCapacity :: "Data \<Rightarrow> nat \<Rightarrow> nat \<Rightarrow> real" where
  "reqCapacity d k f = getBandwidth (getDemand d k) * getConsumption (getVnf d f)"

section \<open>Solver objects\<close>

text \<open>
  A decision variable is \<open>X k i v\<close> (section \<open>i\<close> of demand \<open>k\<close> runs on node \<open>v\<close>) or
  \<open>Y v f\<close> (VNF \<open>f\<close> is installed on node \<open>v\<close>).  An \<^verbatim>\<open>IloExpr\<close> is the list of its
  terms in the order in which \<^verbatim>\<open>+=\<close> added them.  Every \<^verbatim>\<open>IloRange\<close> of the callback
  has \<^verbatim>\<open>IloInfinity\<close> as upper bound: \<open>getUB = None\<close>.  The names, which the code
  builds with \<^verbatim>\<open>std::to_string\<close>, are kept as a datatype with the same arguments.
\<close>

datatype var = X nat nat nat | Y nat nat

type_synonym IloExpr = "(real \<times> var) list"

datatype cut_name =
    NodeCover nat nat nat
  | VNF_LowerBound nat
  | Section_Fail nat nat
  | ChainCoverCut nat nat
  | GenCoverCut nat nat nat
  | heurAvailabilityCut
  | Unnamed

record IloRange =
  getLB :: real
  getExpr :: IloExpr
  getUB :: "real option"
  getName :: cut_name

text \<open>The value of a linear expression at a point.\<close>

definition evalExpr :: "(var \<Rightarrow> real) \<Rightarrow> IloExpr \<Rightarrow> real" where
  "evalExpr p e = sum_list (map (\<lambda>(c, x). c * p x) e)"

datatype ContextId =
  Relaxation | Candidate | ThreadUp | ThreadDown | LocalProgress | GlobalProgress | Branching

text \<open>
  What one invocation can read from the solver: the kind of event, whether a candidate
  is a point (and not an unbounded ray), the values of the variables, the objective of
  the relaxation and of the incumbent, and the clock when \<^verbatim>\<open>invoke\<close> starts and ends.
\<close>

record Context =
  getId :: ContextId
  isCandidatePoint :: bool
  getCandidatePoint :: "var \<Rightarrow> real"
  getRelaxationPoint :: "var \<Rightarrow> real"
  getRelaxationObjective :: real
  getIncumbentObjective :: real
  getTimeStart :: real
  getTimeEnd :: real

text \<open>
  Routines of the C and C++ libraries and of \<^verbatim>\<open>tools/others.hpp\<close> that the callback
  calls.  A pseudo-random generator is a function of its seed and of the number of draws
  made since it was seeded: \<open>rand_value s j\<close> is what the \<open>j\<close>-th call of \<^verbatim>\<open>rand()\<close>
  after \<^verbatim>\<open>srand(s)\<close> returns.  \<open>std_sort\<close> is \<^verbatim>\<open>std::sort\<close> with
  \<^verbatim>\<open>compareAvailability\<close>; it is not stable, so nothing but \<open>sorts_by_availability\<close>
  below is known of it.
\<close>

record MapAvailability =
  ma_section :: nat
  ma_availability :: real

record Platform =
  rand_value :: "nat \<Rightarrow> nat \<Rightarrow> int"
  RAND_MAX :: int
  std_sort :: "MapAvailability list \<Rightarrow> MapAvailability list"
  getSortedIndexes_Asc :: "real list \<Rightarrow> nat list"

definition compareAvailability :: "MapAvailability \<Rightarrow> MapAvailability \<Rightarrow> bool" where
  "compareAvailability a b = (ma_availability a < ma_availability b)"

definition sorts_by_availability :: "(MapAvailability list \<Rightarrow> MapAvailability list) \<Rightarrow> bool" where
  "sorts_by_availability srt =
     (\<forall>xs. mset (srt xs) = mset xs \<and> sorted (map ma_availability (srt xs)))"

section \<open>The callback object\<close>

text \<open>
  The mutable members of \<^verbatim>\<open>Callback\<close>, the state of the generator behind
  \<^verbatim>\<open>rand()\<close>, and what the callback has handed to the solver so far: the cuts passed to
  \<^verbatim>\<open>addUserCut\<close>, the cuts passed to \<^verbatim>\<open>rejectCandidate\<close> and the solutions passed
  to \<^verbatim>\<open>postHeuristicSolution\<close>, each in the order of the calls.  The constructor
  sizes \<open>xSol\<close>, \<open>ySol\<close> and \<open>remainingCapacity\<close> for every index the loops
  visit, so a buffer is modelled by the function from its indexes to its values.
\<close>

record Callback =
  cutPool :: "IloRange list"
  ySol :: "nat \<Rightarrow> nat \<Rightarrow> real"
  xSol :: "nat \<Rightarrow> nat \<Rightarrow> nat \<Rightarrow> real"
  objSol :: real
  remainingCapacity :: "nat \<Rightarrow> real"
  nb_cuts_avail_heuristic :: int
  nbLazyConstraints :: int
  nbCuts :: int
  timeAll :: real
  rngSeed :: nat
  rngCount :: nat
  userCuts :: "IloRange list"
  rejections :: "IloRange list"
  heuristicSolutions :: "((var \<times> real) list \<times> real) list"

datatype error =
    UnexpectedContextId
  | UnboundedSolution
  | NotInCandidateContext
  | NotInRelaxationContext
  | IndexOutOfRange

definition EPS :: real where
  "EPS = 1 / 10000"

definition EPSILON :: real where
  "EPSILON = 1 / 1000000"

definition incrementLazyConstraints :: "Callback \<Rightarrow> Callback" where
  "incrementLazyConstraints st = st\<lparr>nbLazyConstraints := nbLazyConstraints st + 1\<rparr>"

definition incrementAvailabilityCutsHeuristic :: "Callback \<Rightarrow> Callback" where
  "incrementAvailabilityCutsHeuristic st =
     st\<lparr>nb_cuts_avail_heuristic := nb_cuts_avail_heuristic st + 1\<rparr>"

definition incrementUsercuts :: "Callback \<Rightarrow> Callback" where
  "incrementUsercuts st = st\<lparr>nbCuts := nbCuts st + 1\<rparr>"

definition incrementTime :: "real \<Rightarrow> Callback \<Rightarrow> Callback" where
  "incrementTime t st = st\<lparr>timeAll := timeAll st + t\<rparr>"

definition getNbUserCuts :: "Callback \<Rightarrow> int" where
  "getNbUserCuts st = nbCuts st"

text \<open>\<^verbatim>\<open>context.addUserCut(cut, UseCutForce, IloFalse)\<close> and \<^verbatim>\<open>context.rejectCandidate(cut)\<close>.\<close>

definition addUserCut :: "IloRange \<Rightarrow> Callback \<Rightarrow> Callback" where
  "addUserCut ct st = st\<lparr>userCuts := userCuts st @ [ct]\<rparr>"

definition rejectCandidate :: "IloRange \<Rightarrow> Callback \<Rightarrow> Callback" where
  "rejectCandidate ct st = st\<lparr>rejections := rejections st @ [ct]\<rparr>"

text \<open>The assignments \<^verbatim>\<open>xSol[k][i][v] = a\<close> and \<^verbatim>\<open>ySol[v][f] = a\<close>.\<close>

definition set_xSol :: "nat \<Rightarrow> nat \<Rightarrow> nat \<Rightarrow> real \<Rightarrow> Callback \<Rightarrow> Callback" where
  "set_xSol k i v a st =
     st\<lparr>xSol := (xSol st)(k := (xSol st k)(i := (xSol st k i)(v := a)))\<rparr>"

definition set_ySol :: "nat \<Rightarrow> nat \<Rightarrow> real \<Rightarrow> Callback \<Rightarrow> Callback" where
  "set_ySol v f a st = st\<lparr>ySol := (ySol st)(v := (ySol st v)(f := a))\<rparr>"

text \<open>
  What a call can do: return, throw, or still be running when the fuel given to its
  \<^verbatim>\<open>while\<close> loops is used up.
\<close>

datatype 'a outcome = Returns 'a | Throws error | OutOfFuel

section \<open>Lazy constraints\<close>

text \<open>\<^verbatim>\<open>Callback::getIntegerSolution\<close>: copies the candidate into \<open>xSol\<close>, or throws.\<close>

definition getIntegerSolution :: "Data \<Rightarrow> Context \<Rightarrow> Callback \<Rightarrow> error + Callback" where
  "getIntegerSolution d ctx st =
     (if getId ctx = Candidate then
        (if isCandidatePoint ctx then
           Inr (fold (\<lambda>k st.
                  fold (\<lambda>i st.
                    fold (\<lambda>v st. set_xSol k i v (getCandidatePoint ctx (X k i v)) st)
                      (graphNodes d) st)
                    [0 ..< getNbVNFs (getDemand d k)] st)
                  [0 ..< getNbDemands d] st)
         else Inl UnboundedSolution)
      else Inl NotInCandidateContext)"

text \<open>\<^verbatim>\<open>Callback::getAvailabilityOfSection\<close> and \<^verbatim>\<open>Callback::getAvailabilitiesOfSections\<close>.\<close>

definition getAvailabilityOfSection ::
  "Data \<Rightarrow> nat \<Rightarrow> nat \<Rightarrow> (nat \<Rightarrow> nat \<Rightarrow> nat \<Rightarrow> real) \<Rightarrow> real" where
  "getAvailabilityOfSection d k i xs =
     1 - fold (\<lambda>v failure_prob.
                 if xs k i v \<ge> 1 - EPS then failure_prob * (1 - nodeAvail d v)
                 else failure_prob)
              (graphNodes d) 1"

definition getAvailabilitiesOfSections ::
  "Data \<Rightarrow> nat \<Rightarrow> (nat \<Rightarrow> nat \<Rightarrow> nat \<Rightarrow> real) \<Rightarrow> MapAvailability list" where
  "getAvailabilitiesOfSections d k xs =
     map (\<lambda>i. \<lparr>ma_section = i, ma_availability = getAvailabilityOfSection d k i xs\<rparr>)
         [0 ..< getNbVNFs (getDemand d k)]"

text \<open>
  The \<^verbatim>\<open>while\<close> loop of \<^verbatim>\<open>addLazyConstraints\<close> that selects sections until the running
  product is below the requirement.  The vector it walks has one entry per section, so
  \<^verbatim>\<open>index < getNbVNFs()\<close> is "entries remain".  It returns \<open>chainAvailability\<close> and
  \<open>nbSelectedSections\<close>.
\<close>

fun selectSections :: "real \<Rightarrow> MapAvailability list \<Rightarrow> real \<Rightarrow> nat \<Rightarrow> real \<times> nat" where
  "selectSections req [] chainAvailability nbSelectedSections =
     (chainAvailability, nbSelectedSections)"
| "selectSections req (e # es) chainAvailability nbSelectedSections =
     (if chainAvailability \<ge> req
      then selectSections req es (chainAvailability * ma_availability e) (nbSelectedSections + 1)
      else (chainAvailability, nbSelectedSections))"

text \<open>
  \<^verbatim>\<open>Callback::lift\<close>.  \<open>liftNode\<close> is the body of the loop over the nodes, for the
  \<open>s\<close>-th selected section and node \<open>v\<close>; the state is the matrix of the demand and the
  vector of section availabilities, both of which the C++ updates in place.
\<close>

definition liftNode ::
  "Data \<Rightarrow> real \<Rightarrow> nat \<Rightarrow> nat \<Rightarrow> nat \<Rightarrow>
   (nat \<Rightarrow> nat \<Rightarrow> real) \<times> MapAvailability list \<Rightarrow> (nat \<Rightarrow> nat \<Rightarrow> real) \<times> MapAvailability list" where
  "liftNode d availabilityRequired nbSections s v st =
     (let xs = fst st; sectionAvailability = snd st;
          i = ma_section (sectionAvailability ! s)
      in if xs i v < 1 - EPS then
           (let futureAvailabilityOfSection =
                  1 - (1 - ma_availability (sectionAvailability ! s)) * (1 - nodeAvail d v);
                futureAvailability =
                  fold (\<lambda>j fa. if s = j then fa * futureAvailabilityOfSection
                                else fa * ma_availability (sectionAvailability ! j))
                       [0 ..< nbSections] 1
            in if futureAvailability < availabilityRequired
               then (xs(i := (xs i)(v := 1)),
                     sectionAvailability[s := (sectionAvailability ! s)
                        \<lparr>ma_availability := futureAvailabilityOfSection\<rparr>])
               else st)
         else st)"

definition lift ::
  "Data \<Rightarrow> (nat \<Rightarrow> nat \<Rightarrow> real) \<Rightarrow> real \<Rightarrow> MapAvailability list \<Rightarrow> nat \<Rightarrow>
   (nat \<Rightarrow> nat \<Rightarrow> real) \<times> MapAvailability list" where
  "lift d xs availabilityRequired sectionAvailability nbSections =
     fold (\<lambda>s st. fold (liftNode d availabilityRequired nbSections s) (graphNodes d) st)
          [0 ..< nbSections] (xs, sectionAvailability)"

text \<open>The expression of the nogood: the variables of the selected sections that are not placed.\<close>

definition nogoodExpr ::
  "Data \<Rightarrow> nat \<Rightarrow> (nat \<Rightarrow> nat \<Rightarrow> real) \<Rightarrow> MapAvailability list \<Rightarrow> nat \<Rightarrow> IloExpr" where
  "nogoodExpr d k xs sectionAvailability nbSelectedSections =
     concat (map (\<lambda>s. let i = ma_section (sectionAvailability ! s)
                      in map (\<lambda>v. (1, X k i v)) (filter (\<lambda>v. xs i v < 1 - EPS) (graphNodes d)))
                 [0 ..< nbSelectedSections])"

text \<open>The body of the loop over the demands in \<^verbatim>\<open>Callback::addLazyConstraints\<close>.\<close>

definition addLazyConstraints_k :: "Platform \<Rightarrow> Data \<Rightarrow> nat \<Rightarrow> Callback \<Rightarrow> Callback" where
  "addLazyConstraints_k P d k st =
     (let sectionAvailability = std_sort P (getAvailabilitiesOfSections d k (xSol st));
          REQUIRED_AVAIL = getAvailability (getDemand d k);
          (chainAvailability, nbSelectedSections) =
             selectSections REQUIRED_AVAIL sectionAvailability 1 0
      in if chainAvailability < REQUIRED_AVAIL then
           (let (xs, lifted) = lift d (xSol st k) REQUIRED_AVAIL sectionAvailability
                                  nbSelectedSections;
                st1 = st\<lparr>xSol := (xSol st)(k := xs)\<rparr>;
                ct = \<lparr>getLB = 1,
                      getExpr = nogoodExpr d k (xSol st1 k) lifted nbSelectedSections,
                      getUB = None, getName = Unnamed\<rparr>
            in incrementLazyConstraints (rejectCandidate ct st1))
         else st)"

definition addLazyConstraints :: "Platform \<Rightarrow> Data \<Rightarrow> Context \<Rightarrow> Callback \<Rightarrow> error + Callback" where
  "addLazyConstraints P d ctx st =
     (case getIntegerSolution d ctx st of
        Inl e \<Rightarrow> Inl e
      | Inr st1 \<Rightarrow> Inr (fold (addLazyConstraints_k P d) [0 ..< getNbDemands d] st1))"

section \<open>The matheuristic\<close>


definition drawRND :: "Platform \<Rightarrow> Callback \<Rightarrow> real \<times> Callback" where
  "drawRND P st =
     (real_of_int (rand_value P (rngSeed st) (rngCount st)) / real_of_int (RAND_MAX P),
      st\<lparr>rngCount := rngCount st + 1\<rparr>)"

text \<open>
  \<^verbatim>\<open>Callback::heuristicRule\<close>.  (With an incumbent objective of 0 the C++ divides by
  zero in floating point; in HOL the quotient is 0.)
\<close>

definition heuristicRule :: "Platform \<Rightarrow> Data \<Rightarrow> Context \<Rightarrow> Callback \<Rightarrow> bool \<times> Callback" where
  "heuristicRule P d ctx st =
     (if getApproximationType (getInput d) \<noteq> APPROXIMATION_TYPE_NONE then (False, st)
      else (let OBJ = getRelaxationObjective ctx;
                UB = getIncumbentObjective ctx;
                LIMIT = (UB - OBJ) / UB;
                (RND, st1) = drawRND P st
            in (RND \<le> LIMIT, st1)))"

text \<open>
  \<^verbatim>\<open>Callback::runHeuristic_Phase_I\<close>.  \<open>placeVnf\<close> is the body of the loops that build
  \<open>y\<close>, \<open>assignVnf\<close> the body of the loops that build \<open>x\<close>.
\<close>

definition placeVnf :: "Platform \<Rightarrow> Data \<Rightarrow> Context \<Rightarrow> nat \<Rightarrow> nat \<Rightarrow> Callback \<Rightarrow> Callback" where
  "placeVnf P d ctx v f st =
     (let (RND, st1) = drawRND P st
      in if RND \<le> getRelaxationPoint ctx (Y v f)
         then (set_ySol v f 1 st1)
                \<lparr>objSol := objSol st1 + getPlacementCost d (getNode d v) (getVnf d f)\<rparr>
         else set_ySol v f 0 st1)"

definition assignVnf ::
  "Platform \<Rightarrow> Data \<Rightarrow> Context \<Rightarrow> nat \<Rightarrow> nat \<Rightarrow> nat \<Rightarrow> Callback \<Rightarrow> Callback" where
  "assignVnf P d ctx v k i st =
     (let f = getVNF_i (getDemand d k) i;
          req_capacity = reqCapacity d k f
      in if ySol st v f = 1 \<and> req_capacity \<le> remainingCapacity st v then
           (let (RND, st1) = drawRND P st
            in if RND \<le> getRelaxationPoint ctx (X k i v)
               then (set_xSol k i v 1 st1)
                      \<lparr>remainingCapacity := (remainingCapacity st1)
                         (v := remainingCapacity st1 v - req_capacity)\<rparr>
               else set_xSol k i v 0 st1)
         else set_xSol k i v 0 st)"

definition runHeuristic_Phase_I :: "Platform \<Rightarrow> Data \<Rightarrow> Context \<Rightarrow> Callback \<Rightarrow> Callback" where
  "runHeuristic_Phase_I P d ctx st =
     (let st0 = st\<lparr>objSol := 0\<rparr>;
          st1 = fold (\<lambda>v st. fold (placeVnf P d ctx v) [0 ..< getNbVnfs d] st)
                     (graphNodes d) st0
      in fold (\<lambda>v st.
                 fold (\<lambda>k st. fold (assignVnf P d ctx v k) [0 ..< getNbVNFs (getDemand d k)] st)
                      [0 ..< getNbDemands d]
                      (st\<lparr>remainingCapacity := (remainingCapacity st)
                            (v := getCapacity (getNode d v))\<rparr>))
              (graphNodes d) st1)"

text \<open>
  \<^verbatim>\<open>Callback::getSolutionAvail_k\<close>: the availability of the chain, and the least
  available section (\<open>-1\<close> when no section is below 1).  The loop carries
  \<open>(availability, minSectionAvail, leastAvailableSection)\<close>.
\<close>

definition getSolutionAvail_k :: "Data \<Rightarrow> nat \<Rightarrow> Callback \<Rightarrow> real \<times> int" where
  "getSolutionAvail_k d k st =
     (let (availability, minSectionAvail, leastAvailableSection) =
            fold (\<lambda>i (availability, minSectionAvail, leastAvailableSection).
                    let section_fail =
                          fold (\<lambda>v section_fail.
                                  if xSol st k i v = 1
                                  then section_fail * (1 - nodeAvail d v)
                                  else section_fail)
                               (graphNodes d) 1;
                        section_avail = 1 - section_fail
                    in if section_avail < minSectionAvail
                       then (availability * section_avail, section_avail, int i)
                       else (availability * section_avail, minSectionAvail,
                             leastAvailableSection))
                 [0 ..< getNbVNFs (getDemand d k)] (1, 1, - 1)
      in (availability, leastAvailableSection))"

text \<open>
  \<^verbatim>\<open>Callback::getNodeToInstall\<close>.  \<open>minValue\<close> starts at \<^verbatim>\<open>IloInfinity\<close>, which is
  \<open>None\<close>; \<open>le_plus a m e\<close> is \<^verbatim>\<open>a <= m + e\<close>.  The loop carries
  \<open>(maxRemainingCapacity, minValue, selectedNode)\<close>.
\<close>

definition le_plus :: "real \<Rightarrow> real option \<Rightarrow> real \<Rightarrow> bool" where
  "le_plus a m e = (case m of None \<Rightarrow> True | Some x \<Rightarrow> a \<le> x + e)"

definition getNodeToInstall :: "Data \<Rightarrow> nat \<Rightarrow> nat \<Rightarrow> Callback \<Rightarrow> int" where
  "getNodeToInstall d f k st =
     (let REQ_CAPACITY = reqCapacity d k f;
          (maxRemainingCapacity, minValue, selectedNode) =
            fold (\<lambda>v (maxRemainingCapacity, minValue, selectedNode).
                    if REQ_CAPACITY \<le> remainingCapacity st v then
                      (let ADDITIONAL_COST =
                             getPlacementCost d (getNode d v) (getVnf d f) * (1 - ySol st v f)
                       in if le_plus ADDITIONAL_COST minValue EPSILON then
                            (if le_plus ADDITIONAL_COST minValue (- EPSILON)
                             then (remainingCapacity st v, Some ADDITIONAL_COST, int v)
                             else if remainingCapacity st v \<ge> maxRemainingCapacity + EPSILON
                             then (remainingCapacity st v, Some ADDITIONAL_COST, int v)
                             else (maxRemainingCapacity, minValue, selectedNode))
                          else (maxRemainingCapacity, minValue, selectedNode))
                    else (maxRemainingCapacity, minValue, selectedNode))
                 (graphNodes d) (0, None, - 1)
      in selectedNode)"

text \<open>
  \<^verbatim>\<open>Callback::runHeuristic_Phase_II\<close>.  One turn of the \<^verbatim>\<open>while\<close> loop for demand
  \<open>k\<close> either finds the chain available enough (\<open>Satisfied\<close>), finds no node with
  capacity left (\<open>NoNode\<close>, the C++ returns \<^verbatim>\<open>false\<close>), assigns one more node
  (\<open>Assigned\<close>), or indexes the sections with \<open>-1\<close> (\<open>BadIndex\<close>: undefined behaviour in
  the C++, reached only when the chain is below the requirement while every section has
  availability 1 or more).
\<close>

datatype repair_step = Satisfied | NoNode | Assigned Callback | BadIndex

definition repairStep :: "Data \<Rightarrow> nat \<Rightarrow> Callback \<Rightarrow> repair_step" where
  "repairStep d k st =
     (let REQ_AVAIL = getAvailability (getDemand d k);
          (avail, i) = getSolutionAvail_k d k st
      in if avail < REQ_AVAIL then
           (if i < 0 then BadIndex
            else (let f = getVNF_i (getDemand d k) (nat i);
                      v = getNodeToInstall d f k st
                  in if v = - 1 then NoNode
                     else (let st1 = set_xSol k (nat i) (nat v) 1 st;
                               st2 = st1\<lparr>remainingCapacity := (remainingCapacity st1)
                                        (nat v := remainingCapacity st1 (nat v) - reqCapacity d k f)\<rparr>
                           in if ySol st2 (nat v) f = 0
                              then Assigned ((set_ySol (nat v) f 1 st2)
                                     \<lparr>objSol := objSol st2
                                        + getPlacementCost d (getNode d (nat v)) (getVnf d f)\<rparr>)
                              else Assigned st2)))
         else Satisfied)"

fun repairDemand :: "nat \<Rightarrow> Data \<Rightarrow> nat \<Rightarrow> Callback \<Rightarrow> (bool \<times> Callback) outcome" where
  "repairDemand 0 d k st = OutOfFuel"
| "repairDemand (Suc fuel) d k st =
     (case repairStep d k st of
        Satisfied \<Rightarrow> Returns (True, st)
      | NoNode \<Rightarrow> Returns (False, st)
      | BadIndex \<Rightarrow> Throws IndexOutOfRange
      | Assigned st1 \<Rightarrow> repairDemand fuel d k st1)"

fun repairDemands :: "nat \<Rightarrow> Data \<Rightarrow> nat list \<Rightarrow> Callback \<Rightarrow> (bool \<times> Callback) outcome" where
  "repairDemands fuel d [] st = Returns (True, st)"
| "repairDemands fuel d (k # ks) st =
     (case repairDemand fuel d k st of
        Returns (True, st1) \<Rightarrow> repairDemands fuel d ks st1
      | Returns (False, st1) \<Rightarrow> Returns (False, st1)
      | Throws e \<Rightarrow> Throws e
      | OutOfFuel \<Rightarrow> OutOfFuel)"

definition runHeuristic_Phase_II :: "nat \<Rightarrow> Data \<Rightarrow> Callback \<Rightarrow> (bool \<times> Callback) outcome" where
  "runHeuristic_Phase_II fuel d st = repairDemands fuel d [0 ..< getNbDemands d] st"

text \<open>\<^verbatim>\<open>Callback::insertHeuristicSolution\<close>.\<close>

definition insertHeuristicSolution :: "Data \<Rightarrow> Callback \<Rightarrow> Callback" where
  "insertHeuristicSolution d st =
     (let yvals = concat (map (\<lambda>v. map (\<lambda>f. (Y v f, ySol st v f)) [0 ..< getNbVnfs d])
                              (graphNodes d));
          xvals = concat (map (\<lambda>k. concat (map (\<lambda>i. map (\<lambda>v. (X k i v, xSol st k i v))
                                                           (graphNodes d))
                                                [0 ..< getNbVNFs (getDemand d k)]))
                              [0 ..< getNbDemands d]);
          objVal = fold (\<lambda>v objVal.
                      fold (\<lambda>i objVal.
                              let f = getVnfId (getVnf d i);
                                  cost = getPlacementCost d (getNode d v) (getVnf d f)
                              in objVal + cost * ySol st v f)
                           [0 ..< getNbVnfs d] objVal)
                      (graphNodes d) 0
      in st\<lparr>heuristicSolutions := heuristicSolutions st @ [(yvals @ xvals, objVal)]\<rparr>)"

text \<open>\<^verbatim>\<open>Callback::runHeuristic\<close>.\<close>

definition runHeuristic :: "nat \<Rightarrow> Platform \<Rightarrow> Data \<Rightarrow> Context \<Rightarrow> Callback \<Rightarrow> Callback outcome" where
  "runHeuristic fuel P d ctx st =
     (if getHeuristic (getInput d) = HEURISTIC_OFF then Returns st
      else (let (rule, st0) = heuristicRule P d ctx st
            in if rule = False then Returns st0
               else (case runHeuristic_Phase_II fuel d (runHeuristic_Phase_I P d ctx st0) of
                       Returns (isFeasible, st2) \<Rightarrow>
                         if isFeasible \<and> objSol st2 < getIncumbentObjective ctx
                         then Returns (insertHeuristicSolution d st2)
                         else Returns st2
                     | Throws e \<Rightarrow> Throws e
                     | OutOfFuel \<Rightarrow> OutOfFuel)))"

section \<open>The pool of cuts\<close>

text \<open>
  \<^verbatim>\<open>Callback::addAvailabilityCoverConstraints\<close>.  \<open>coverCoefficients\<close> is the vector
  \<open>c\<close> that the code fills for demand \<open>k\<close>: one entry per ranked node, zero until
  written.  (An identifier beyond the size of the vector is an out-of-range access in the
  C++; the node identifiers of a well-formed instance are \<open>0, ..., N - 1\<close>.)
\<close>

definition coverCoefficients :: "Data \<Rightarrow> nat \<Rightarrow> int list" where
  "coverCoefficients d k =
     fold (\<lambda>v c. c[v := getMinNbNodes d (getAvailability (getDemand d k)) (nodeAvail d v)])
          (getAvailNodeRank d) (replicate (length (getAvailNodeRank d)) 0)"

definition nodeCoverCoeff :: "Data \<Rightarrow> int list \<Rightarrow> nat \<Rightarrow> nat \<Rightarrow> int" where
  "nodeCoverCoeff d c v node_id =
     (if getNodeRankPosition d node_id < getNodeRankPosition d v
      then max (c ! v - c ! node_id + 1) 1
      else 1)"

definition nodeCoverCut :: "Data \<Rightarrow> int list \<Rightarrow> nat \<Rightarrow> nat \<Rightarrow> nat \<Rightarrow> IloRange" where
  "nodeCoverCut d c k i v =
     \<lparr>getLB = real_of_int (c ! v),
      getExpr = map (\<lambda>node_id. (real_of_int (nodeCoverCoeff d c v node_id), X k i node_id))
                    (graphNodes d),
      getUB = None, getName = NodeCover k i v\<rparr>"

definition addAvailabilityCoverConstraints :: "Data \<Rightarrow> Callback \<Rightarrow> Callback" where
  "addAvailabilityCoverConstraints d st =
     fold (\<lambda>k st.
       let c = coverCoefficients d k
       in fold (\<lambda>i st.
            fold (\<lambda>v st.
                    let pos = getNodeRankPosition d v
                    in if pos > 0 then
                         (if c ! v > c ! (getAvailNodeRank d ! nat (pos - 1))
                          then st\<lparr>cutPool := cutPool st @ [nodeCoverCut d c k i v]\<rparr>
                          else st)
                       else st)
                 (graphNodes d) st)
            [0 ..< getNbVNFs (getDemand d k)] st)
       [0 ..< getNbDemands d] st"




text \<open>
  \<^verbatim>\<open>Callback::checkCutPool\<close>.  \<open>isViolated\<close> is the test of the loop; an upper bound
  of \<^verbatim>\<open>IloInfinity\<close> is never exceeded.
\<close>

definition isViolated :: "Context \<Rightarrow> IloRange \<Rightarrow> bool" where
  "isViolated ctx ct =
     (let LHS = evalExpr (getRelaxationPoint ctx) (getExpr ct)
      in LHS < getLB ct - EPS \<or> (case getUB ct of None \<Rightarrow> False | Some u \<Rightarrow> LHS > u + EPS))"

definition checkCutPool :: "Context \<Rightarrow> Callback \<Rightarrow> bool \<times> Callback" where
  "checkCutPool ctx st =
     fold (\<lambda>ct (found_violated_cut, st).
             if isViolated ctx ct then (True, incrementUsercuts (addUserCut ct st))
             else (found_violated_cut, st))
          (cutPool st) (False, st)"

section \<open>Separation of user cuts\<close>

text \<open>\<^verbatim>\<open>Callback::getFractionalSolution\<close>.\<close>

definition getFractionalSolution :: "Data \<Rightarrow> Context \<Rightarrow> Callback \<Rightarrow> error + Callback" where
  "getFractionalSolution d ctx st =
     (if getId ctx = Relaxation then
        Inr (fold (\<lambda>k st.
               fold (\<lambda>i st.
                 fold (\<lambda>v st. set_xSol k i v (getRelaxationPoint ctx (X k i v)) st)
                   (graphNodes d) st)
                 [0 ..< getNbVNFs (getDemand d k)] st)
               [0 ..< getNbDemands d] st)
      else Inl NotInRelaxationContext)"

text \<open>
  \<^verbatim>\<open>Callback::chainCoverSeparation\<close>.  \<open>chainCoverPrefixes\<close> is the loop over
  \<open>nb_sections\<close>, which leaves at the first violated prefix.
\<close>

definition prefixSum :: "real list \<Rightarrow> nat list \<Rightarrow> nat \<Rightarrow> real" where
  "prefixSum sum_over_nodes sorted_sections nb_sections =
     fold (\<lambda>i lhs. lhs + sum_over_nodes ! (sorted_sections ! i)) [0 ..< nb_sections] 0"

fun chainCoverPrefixes ::
  "Data \<Rightarrow> nat \<Rightarrow> real list \<Rightarrow> nat list \<Rightarrow> nat list \<Rightarrow> Callback \<Rightarrow> Callback" where
  "chainCoverPrefixes d k sum_over_nodes sorted_sections [] st = st"
| "chainCoverPrefixes d k sum_over_nodes sorted_sections (nb_sections # rest) st =
     (let lhs = prefixSum sum_over_nodes sorted_sections nb_sections;
          rhs = real_of_int (getVnfLB d (getAvailability (getDemand d k)) nb_sections)
      in if lhs < rhs - EPS then
           incrementUsercuts (addUserCut
             \<lparr>getLB = rhs,
              getExpr = concat (map (\<lambda>i. map (\<lambda>v. (1, X k (sorted_sections ! i) v)) (graphNodes d))
                                    [0 ..< nb_sections]),
              getUB = None, getName = ChainCoverCut k nb_sections\<rparr> st)
         else chainCoverPrefixes d k sum_over_nodes sorted_sections rest st)"

definition chainCoverSeparation :: "Platform \<Rightarrow> Data \<Rightarrow> Callback \<Rightarrow> Callback" where
  "chainCoverSeparation P d st =
     fold (\<lambda>k st.
       let sum_over_nodes =
             map (\<lambda>i. fold (\<lambda>v s. s + xSol st k i v) (graphNodes d) 0)
                 [0 ..< getNbVNFs (getDemand d k)];
           sorted_sections = getSortedIndexes_Asc P sum_over_nodes
       in chainCoverPrefixes d k sum_over_nodes sorted_sections
            [1 ..< getNbVNFs (getDemand d k) + 1] st)
       [0 ..< getNbDemands d] st"

text \<open>
  \<^verbatim>\<open>Callback::generalizedCoverSeparation\<close>.  \<open>favoredSet\<close> is the vector \<open>set_U\<close> of
  the probe node \<open>limit_node\<close>.  \<open>genCoverCut\<close> is what the body of the innermost loop
  finds for demand \<open>k\<close>, probe node \<open>limit_node\<close> and \<open>nb_sections\<close>: the violated cut, if
  there is one.  The three loops are left by \<^verbatim>\<open>return\<close> at the first cut: each of
  \<open>genCoverPrefixes\<close>, \<open>genCoverProbes\<close> and \<open>genCoverDemands\<close> says whether it returned.
\<close>

definition favoredSet :: "Data \<Rightarrow> nat \<Rightarrow> bool list" where
  "favoredSet d limit_node =
     fold (\<lambda>v set_U. if getNodeRankPosition d v \<ge> getNodeRankPosition d limit_node
                      then set_U[v := True] else set_U)
          (graphNodes d) (replicate (getNbNodes d) False)"

definition genCoverCut ::
  "Platform \<Rightarrow> Data \<Rightarrow> Callback \<Rightarrow> nat \<Rightarrow> nat \<Rightarrow> nat \<Rightarrow> IloRange option" where
  "genCoverCut P d st k limit_node nb_sections =
     (let set_U = favoredSet d limit_node;
          rhs = getVnfLB_U d set_U nb_sections (getAvailability (getDemand d k))
      in if rhs \<ge> 0 then
           (let sum_over_nodes =
                  map (\<lambda>i. fold (\<lambda>v s. if set_U ! v then s + xSol st k i v
                                        else s + rhs * xSol st k i v)
                                 (graphNodes d) 0)
                      [0 ..< getNbVNFs (getDemand d k)];
                sorted_sections = getSortedIndexes_Asc P sum_over_nodes;
                lhs = prefixSum sum_over_nodes sorted_sections nb_sections
            in if lhs < rhs - EPS then
                 Some \<lparr>getLB = rhs,
                       getExpr = concat (map (\<lambda>i. map (\<lambda>v. (if set_U ! v then 1 else rhs,
                                                              X k (sorted_sections ! i) v))
                                                       (graphNodes d))
                                             [0 ..< nb_sections]),
                       getUB = None, getName = GenCoverCut k nb_sections limit_node\<rparr>
               else None)
         else None)"

fun genCoverPrefixes ::
  "Platform \<Rightarrow> Data \<Rightarrow> nat \<Rightarrow> nat \<Rightarrow> nat list \<Rightarrow> Callback \<Rightarrow> bool \<times> Callback" where
  "genCoverPrefixes P d k limit_node [] st = (False, st)"
| "genCoverPrefixes P d k limit_node (nb_sections # rest) st =
     (case genCoverCut P d st k limit_node nb_sections of
        Some ct \<Rightarrow> (True, incrementUsercuts (addUserCut ct st))
      | None \<Rightarrow> genCoverPrefixes P d k limit_node rest st)"

fun genCoverProbes :: "Platform \<Rightarrow> Data \<Rightarrow> nat \<Rightarrow> nat list \<Rightarrow> Callback \<Rightarrow> bool \<times> Callback" where
  "genCoverProbes P d k [] st = (False, st)"
| "genCoverProbes P d k (limit_node # rest) st =
     (case genCoverPrefixes P d k limit_node [1 ..< getNbVNFs (getDemand d k) + 1] st of
        (True, st1) \<Rightarrow> (True, st1)
      | (False, st1) \<Rightarrow> genCoverProbes P d k rest st1)"

fun genCoverDemands :: "Platform \<Rightarrow> Data \<Rightarrow> nat list \<Rightarrow> Callback \<Rightarrow> bool \<times> Callback" where
  "genCoverDemands P d [] st = (False, st)"
| "genCoverDemands P d (k # rest) st =
     (case genCoverProbes P d k (graphNodes d) st of
        (True, st1) \<Rightarrow> (True, st1)
      | (False, st1) \<Rightarrow> genCoverDemands P d rest st1)"

definition generalizedCoverSeparation :: "Platform \<Rightarrow> Data \<Rightarrow> Callback \<Rightarrow> Callback" where
  "generalizedCoverSeparation P d st = snd (genCoverDemands P d [0 ..< getNbDemands d] st)"

text \<open>
  \<^verbatim>\<open>Callback::initiateHeuristic\<close>.  The greedy separation works on the coefficients
  \<open>coeff\<close>, the nodes \<open>sectionNodes\<close> placed in each section and the availabilities
  \<open>sectionAvailability\<close> of the sections.  \<open>initiateSection\<close> is the body of the second
  loop over the sections.  When no node can start an empty section the C++ writes
  \<^verbatim>\<open>coeff[i][-1]\<close>, which is undefined behaviour: the model stops with
  \<open>IndexOutOfRange\<close>.
\<close>

type_synonym heur_state = "(nat \<Rightarrow> nat \<Rightarrow> int) \<times> (nat \<Rightarrow> nat list) \<times> real list"

definition initiateSection ::
  "Data \<Rightarrow> nat \<Rightarrow> (nat \<Rightarrow> nat \<Rightarrow> nat \<Rightarrow> real) \<Rightarrow> nat \<Rightarrow> heur_state \<Rightarrow> error + heur_state" where
  "initiateSection d k xs i hs =
     (let (coeff, sectionNodes, sectionAvailability) = hs;
          (coeff1, nodes1) =
             fold (\<lambda>v (coeff, nodes).
                     if xs k i v \<ge> 1 - EPS
                     then (coeff(i := (coeff i)(v := 0)), nodes @ [v])
                     else (coeff, nodes))
                  (graphNodes d) (coeff, sectionNodes i)
      in if nodes1 = [] then
           (let (selectedNode, bestValue) =
                  fold (\<lambda>v (selectedNode, bestValue).
                          if xs k i v / nodeAvail d v > bestValue
                          then (int v, xs k i v / nodeAvail d v)
                          else (selectedNode, bestValue))
                       (graphNodes d) (- 1, - 1)
            in if selectedNode < 0 then Inl IndexOutOfRange
               else Inr (coeff1(i := (coeff1 i)(nat selectedNode := 0)),
                         sectionNodes(i := [nat selectedNode]),
                         sectionAvailability[i := 1 - getFailureProb d [nat selectedNode]]))
         else Inr (coeff1, sectionNodes(i := nodes1),
                   sectionAvailability[i := 1 - getFailureProb d nodes1]))"

fun initiateSections ::
  "Data \<Rightarrow> nat \<Rightarrow> (nat \<Rightarrow> nat \<Rightarrow> nat \<Rightarrow> real) \<Rightarrow> nat list \<Rightarrow> heur_state \<Rightarrow> error + heur_state" where
  "initiateSections d k xs [] hs = Inr hs"
| "initiateSections d k xs (i # rest) hs =
     (case initiateSection d k xs i hs of
        Inl e \<Rightarrow> Inl e
      | Inr hs1 \<Rightarrow> initiateSections d k xs rest hs1)"

definition initiateHeuristic ::
  "Data \<Rightarrow> nat \<Rightarrow> (nat \<Rightarrow> nat \<Rightarrow> nat \<Rightarrow> real) \<Rightarrow> error + heur_state" where
  "initiateHeuristic d k xs =
     initiateSections d k xs [0 ..< getNbVNFs (getDemand d k)]
       (\<lambda>i. fold (\<lambda>v c. c(v := 1)) (graphNodes d) (\<lambda>v. 0),
        \<lambda>i. [],
        replicate (getNbVNFs (getDemand d k)) 0)"

text \<open>
  \<^verbatim>\<open>Callback::computeDeltaAvailability\<close>: the matrix \<open>deltaAvail\<close>, of which the
  caller reads the entries of the sections and nodes of the instance.
\<close>

definition computeDeltaAvailability ::
  "Data \<Rightarrow> real \<Rightarrow> real list \<Rightarrow> (nat \<Rightarrow> nat \<Rightarrow> int) \<Rightarrow> nat \<Rightarrow> nat \<Rightarrow> real" where
  "computeDeltaAvailability d CHAIN_AVAIL sectionAvail coeff i v =
     (if coeff i v = 0 then 10
      else (let newSectionAvail = 1 - (1 - sectionAvail ! i) * (1 - nodeAvail d v);
                newChainAvail = (CHAIN_AVAIL / sectionAvail ! i) * newSectionAvail
            in newChainAvail - CHAIN_AVAIL))"

text \<open>
  The body of \<^verbatim>\<open>while (!STOP)\<close> in
  \<^verbatim>\<open>Callback::heuristicSeparationOfAvailibilityConstraints\<close> searches the next
  placement (\<open>searchNextVnf\<close> returns \<open>(bestRatio, nextSection, nextNode)\<close>) and
  includes it; \<open>greedyPlacement\<close> is the loop, on \<open>chainAvailability\<close> and the state.
\<close>

definition searchNextVnf ::
  "Data \<Rightarrow> nat \<Rightarrow> (nat \<Rightarrow> nat \<Rightarrow> nat \<Rightarrow> real) \<Rightarrow> real \<Rightarrow> real \<Rightarrow> (nat \<Rightarrow> nat \<Rightarrow> real) \<Rightarrow>
   real \<times> int \<times> int" where
  "searchNextVnf d k xs REQUIRED_AVAIL chainAvailability deltaAvailability =
     fold (\<lambda>i best.
        fold (\<lambda>v (bestRatio, nextSection, nextNode).
                if chainAvailability + deltaAvailability i v < REQUIRED_AVAIL
                   \<and> xs k i v / deltaAvailability i v > bestRatio
                then (xs k i v / deltaAvailability i v, int i, int v)
                else (bestRatio, nextSection, nextNode))
             (graphNodes d) best)
        [0 ..< getNbVNFs (getDemand d k)] (- 1, - 1, - 1)"

fun greedyPlacement ::
  "nat \<Rightarrow> Data \<Rightarrow> nat \<Rightarrow> (nat \<Rightarrow> nat \<Rightarrow> nat \<Rightarrow> real) \<Rightarrow> real \<Rightarrow> real \<times> heur_state \<Rightarrow>
   (real \<times> heur_state) outcome" where
  "greedyPlacement 0 d k xs REQUIRED_AVAIL acc = OutOfFuel"
| "greedyPlacement (Suc fuel) d k xs REQUIRED_AVAIL acc =
     (let (chainAvailability, coeff, sectionNodes, sectionAvailability) = acc;
          deltaAvailability = computeDeltaAvailability d REQUIRED_AVAIL sectionAvailability coeff;
          (bestRatio, nextSection, nextNode) =
             searchNextVnf d k xs REQUIRED_AVAIL chainAvailability deltaAvailability
      in if nextSection \<noteq> - 1 \<and> nextNode \<noteq> - 1 then
           (let s = nat nextSection; n = nat nextNode
            in greedyPlacement fuel d k xs REQUIRED_AVAIL
                 (chainAvailability + deltaAvailability s n,
                  coeff(s := (coeff s)(n := 0)),
                  sectionNodes(s := sectionNodes s @ [n]),
                  sectionAvailability[s := 1 - (1 - sectionAvailability ! s) * (1 - nodeAvail d n)]))
         else Returns acc)"

definition heurAvailabilityLhs ::
  "Data \<Rightarrow> nat \<Rightarrow> (nat \<Rightarrow> nat \<Rightarrow> nat \<Rightarrow> real) \<Rightarrow> (nat \<Rightarrow> nat \<Rightarrow> int) \<Rightarrow> real" where
  "heurAvailabilityLhs d k xs coeff =
     fold (\<lambda>i lhs. fold (\<lambda>v lhs. lhs + real_of_int (coeff i v) * xs k i v) (graphNodes d) lhs)
          [0 ..< getNbVNFs (getDemand d k)] 0"

definition heuristicSeparation_k :: "nat \<Rightarrow> Data \<Rightarrow> nat \<Rightarrow> Callback \<Rightarrow> Callback outcome" where
  "heuristicSeparation_k fuel d k st =
     (case initiateHeuristic d k (xSol st) of
        Inl e \<Rightarrow> Throws e
      | Inr (coeff, sectionNodes, sectionAvailability) \<Rightarrow>
          (let chainAvailability = getChainAvailability d sectionAvailability;
               REQUIRED_AVAIL = getAvailability (getDemand d k)
           in if chainAvailability < REQUIRED_AVAIL then
                (case greedyPlacement fuel d k (xSol st) REQUIRED_AVAIL
                        (chainAvailability, coeff, sectionNodes, sectionAvailability) of
                   Returns (chainAvailability1, coeff1, sectionNodes1, sectionAvailability1) \<Rightarrow>
                     if heurAvailabilityLhs d k (xSol st) coeff1 < 1 - EPS then
                       Returns (incrementUsercuts (incrementAvailabilityCutsHeuristic (addUserCut
                         \<lparr>getLB = 1,
                          getExpr = concat (map (\<lambda>i. map (\<lambda>v. (1, X k i v))
                                                          (filter (\<lambda>v. coeff1 i v = 1) (graphNodes d)))
                                                [0 ..< getNbVNFs (getDemand d k)]),
                          getUB = None, getName = heurAvailabilityCut\<rparr> st)))
                     else Returns st
                 | Throws e \<Rightarrow> Throws e
                 | OutOfFuel \<Rightarrow> OutOfFuel)
              else Returns st))"

fun heuristicSeparationDemands :: "nat \<Rightarrow> Data \<Rightarrow> nat list \<Rightarrow> Callback \<Rightarrow> Callback outcome" where
  "heuristicSeparationDemands fuel d [] st = Returns st"
| "heuristicSeparationDemands fuel d (k # rest) st =
     (case heuristicSeparation_k fuel d k st of
        Returns st1 \<Rightarrow> heuristicSeparationDemands fuel d rest st1
      | Throws e \<Rightarrow> Throws e
      | OutOfFuel \<Rightarrow> OutOfFuel)"

definition heuristicSeparationOfAvailibilityConstraints ::
  "nat \<Rightarrow> Data \<Rightarrow> Callback \<Rightarrow> Callback outcome" where
  "heuristicSeparationOfAvailibilityConstraints fuel d st =
     heuristicSeparationDemands fuel d [0 ..< getNbDemands d] st"

text \<open>\<^verbatim>\<open>Callback::addUserCuts\<close>.\<close>

definition addUserCuts :: "nat \<Rightarrow> Platform \<Rightarrow> Data \<Rightarrow> Context \<Rightarrow> Callback \<Rightarrow> Callback outcome" where
  "addUserCuts fuel P d ctx st =
     (case getFractionalSolution d ctx st of
        Inl e \<Rightarrow> Throws e
      | Inr st1 \<Rightarrow>
          (let (found, st2) = checkCutPool ctx st1
           in if found = False then
                (let st3 = (if getChainCover (getInput d) = CHAIN_COVER_ON
                            then chainCoverSeparation P d (generalizedCoverSeparation P d st2)
                            else st2)
                 in if getAvailabilityUsercuts (getInput d) = AVAILABILITY_USERCUTS_ON
                    then heuristicSeparationOfAvailibilityConstraints fuel d st3
                    else Returns st3)
              else Returns st2))"

section \<open>The dispatcher and the constructor\<close>

text \<open>
  \<^verbatim>\<open>Callback::invoke\<close>.  \<open>dispatch\<close> is the \<^verbatim>\<open>switch\<close>; the time is added after it,
  unless it threw.
\<close>

definition dispatch :: "nat \<Rightarrow> Platform \<Rightarrow> Data \<Rightarrow> Context \<Rightarrow> Callback \<Rightarrow> Callback outcome" where
  "dispatch fuel P d ctx st =
     (case getId ctx of
        Relaxation \<Rightarrow>
          (let current_number_of_cuts = getNbUserCuts st
           in case addUserCuts fuel P d ctx st of
                Returns st1 \<Rightarrow>
                  if current_number_of_cuts = getNbUserCuts st1
                  then runHeuristic fuel P d ctx st1
                  else Returns st1
              | Throws e \<Rightarrow> Throws e
              | OutOfFuel \<Rightarrow> OutOfFuel)
      | Candidate \<Rightarrow>
          (if isCandidatePoint ctx then
             (case addLazyConstraints P d ctx st of
                Inl e \<Rightarrow> Throws e
              | Inr st1 \<Rightarrow> Returns st1)
           else Returns st)
      | _ \<Rightarrow> Throws UnexpectedContextId)"

definition invoke :: "nat \<Rightarrow> Platform \<Rightarrow> Data \<Rightarrow> Context \<Rightarrow> Callback \<Rightarrow> Callback outcome" where
  "invoke fuel P d ctx st =
     (let time_start = getTimeStart ctx
      in case dispatch fuel P d ctx st of
           Returns st1 \<Rightarrow> Returns (incrementTime (getTimeEnd ctx - time_start) st1)
         | Throws e \<Rightarrow> Throws e
         | OutOfFuel \<Rightarrow> OutOfFuel)"

text \<open>
  The constructor \<^verbatim>\<open>Callback::Callback\<close>.  \<open>gen\<close> is the state of the generator of
  the process (seed and number of draws) when the constructor is entered.
\<close>

definition SEED :: nat where
  "SEED = 20102019"




section \<open>Notions used in the statements\<close>

text \<open>
  The cuts that the loops of \<open>generalizedCoverSeparation\<close> would find, in the order of
  the loops (demands, then probe nodes, then numbers of sections), and the first of a list
  of optional values.
\<close>

fun firstSome :: "'a option list \<Rightarrow> 'a option" where
  "firstSome [] = None"
| "firstSome (None # xs) = firstSome xs"
| "firstSome (Some x # xs) = Some x"


text \<open>
  Between two states, the user cuts handed to the solver are counted: the later state
  has the cuts of the earlier one followed by new ones, and \<open>nbCuts\<close> has grown by their
  number.
\<close>

definition cutsCounted :: "Callback \<Rightarrow> Callback \<Rightarrow> bool" where
  "cutsCounted st st1 =
     (\<exists>new. userCuts st1 = userCuts st @ new \<and> nbCuts st1 = nbCuts st + int (length new))"

section \<open>An instance\<close>

text \<open>
  Three nodes of capacity 10 and availabilities 0.90, 0.80 and 0.93, ranked by decreasing
  availability (node 2, node 0, node 1), and one demand of one section, bandwidth 1 and
  required availability 0.99.

  Modelled from the spec: \<^verbatim>\<open>Data::getMinNbNodes\<close> (the class \<^verbatim>\<open>Data\<close> is missing),
  "the minimum node count needed at availability at least a(v) to reach k's SLA":
  \<open>searchMinNbNodes\<close> looks for the least \<open>n\<close>, from 1 on, with
  \<open>1 - (1 - a)\<^sup>n \<ge> req\<close>.
\<close>

fun searchMinNbNodes :: "nat \<Rightarrow> nat \<Rightarrow> real \<Rightarrow> real \<Rightarrow> int" where
  "searchMinNbNodes 0 n req a = - 1"
| "searchMinNbNodes (Suc fuel) n req a =
     (if 1 - (1 - a) ^ n \<ge> req then int n else searchMinNbNodes fuel (Suc n) req a)"

definition exNode :: "nat \<Rightarrow> Node" where
  "exNode v = (if v = 0 then \<lparr>getCapacity = 10, getNodeAvailability = 9 / 10\<rparr>
               else if v = 1 then \<lparr>getCapacity = 10, getNodeAvailability = 8 / 10\<rparr>
               else \<lparr>getCapacity = 10, getNodeAvailability = 93 / 100\<rparr>)"

definition exInput :: Input where
  "exInput = \<lparr>getNodeCover = NODE_COVER_ON, getChainCover = CHAIN_COVER_ON,
     getAvailabilityUsercuts = AVAILABILITY_USERCUTS_ON,
     getVnfLowerBoundCuts = VNF_LOWER_BOUND_CUTS_ON,
     getSectionFailureCuts = SECTION_FAILURE_CUTS_ON,
     getApproximationType = APPROXIMATION_TYPE_NONE, getHeuristic = HEURISTIC_ON\<rparr>"

definition exData :: Data where
  "exData = \<lparr>getInput = exInput, graphNodes = [0, 1, 2], getNode = exNode, getNbVnfs = 1,
     getVnf = (\<lambda>f. \<lparr>getVnfId = f, getConsumption = 1\<rparr>),
     getDemands = [\<lparr>getVNFs = [0], getBandwidth = 1, getAvailability = 99 / 100\<rparr>],
     getPlacementCost = (\<lambda>n f. 1),
     getAvailNodeRank = [2, 0, 1],
     getNodeRankPosition = (\<lambda>v. if v = 2 then 0 else if v = 0 then 1 else 2),
     getMinNbNodes = searchMinNbNodes 64 1,
     getVnfLB = (\<lambda>req n. int n),
     getVnfLB_U = (\<lambda>U n req. real n),
     getFailureProb = (\<lambda>ns. prod_list (map (\<lambda>v. 1 - getNodeAvailability (exNode v)) ns)),
     getChainAvailability = prod_list\<rparr>"

text \<open>The same instance with the pool as the only source of user cuts.\<close>

definition exPoolOnly :: Data where
  "exPoolOnly = exData\<lparr>getInput := exInput\<lparr>getChainCover := CHAIN_COVER_OFF,
                   getAvailabilityUsercuts := AVAILABILITY_USERCUTS_OFF\<rparr>\<rparr>"

definition exPlatform :: Platform where
  "exPlatform = \<lparr>rand_value = (\<lambda>s j. 0), RAND_MAX = 2147483647,
     std_sort = sort_key ma_availability,
     getSortedIndexes_Asc = (\<lambda>xs. map snd (sort_key fst (zip xs [0 ..< length xs])))\<rparr>"

text \<open>A candidate that runs the section on node 0 alone, and a relaxation with every variable at 1/2.\<close>

definition exCandidate :: Context where
  "exCandidate = \<lparr>getId = Candidate, isCandidatePoint = True,
     getCandidatePoint = (\<lambda>x. if x = X 0 0 0 then 1 else 0),
     getRelaxationPoint = (\<lambda>x. 0), getRelaxationObjective = 0, getIncumbentObjective = 0,
     getTimeStart = 0, getTimeEnd = 1\<rparr>"

definition exRelaxation :: Context where
  "exRelaxation = \<lparr>getId = Relaxation, isCandidatePoint = False,
     getCandidatePoint = (\<lambda>x. 0),
     getRelaxationPoint = (\<lambda>x. 1 / 2), getRelaxationObjective = 1, getIncumbentObjective = 4,
     getTimeStart = 0, getTimeEnd = 1\<rparr>"

text \<open>A callback with an empty pool, and the node-cover cut of the instance.\<close>

definition exCallback :: Callback where
  "exCallback = \<lparr>cutPool = [], ySol = (\<lambda>v f. 0), xSol = (\<lambda>k i v. 0), objSol = 0,
     remainingCapacity = (\<lambda>v. 0),
     nb_cuts_avail_heuristic = 0, nbLazyConstraints = 0, nbCuts = 0, timeAll = 0,
     rngSeed = SEED, rngCount = 0,
     userCuts = [], rejections = [], heuristicSolutions = []\<rparr>"

definition exNodeCover :: IloRange where
  "exNodeCover = \<lparr>getLB = 3, getExpr = [(2, X 0 0 0), (1, X 0 0 1), (2, X 0 0 2)],
                   getUB = None, getName = NodeCover 0 0 1\<rparr>"

text \<open>
  For the node-cover cuts: \<open>minNodes d k v\<close> is the number \<open>c(v)\<close> of the statement,
  \<^verbatim>\<open>getMinNbNodes\<close> at the requirement of demand \<open>k\<close> and the availability of node
  \<open>v\<close>.  The ranking is well formed when it lists the nodes \<open>0, ..., N - 1\<close> and
  \<open>getNodeRankPosition\<close> gives the place of each node of the graph in it.
\<close>

definition minNodes :: "Data \<Rightarrow> nat \<Rightarrow> nat \<Rightarrow> int" where
  "minNodes d k v = getMinNbNodes d (getAvailability (getDemand d k)) (nodeAvail d v)"

definition rankWellFormed :: "Data \<Rightarrow> bool" where
  "rankWellFormed d =
     (list_all (\<lambda>v. v < length (getAvailNodeRank d)) (getAvailNodeRank d)
      \<and> list_all (\<lambda>v. 0 \<le> getNodeRankPosition d v
                       \<and> nat (getNodeRankPosition d v) < length (getAvailNodeRank d)
                       \<and> getAvailNodeRank d ! nat (getNodeRankPosition d v) = v)
                  (graphNodes d))"

text \<open>The node that precedes \<open>v\<close> in the ranking.\<close>

definition rankPredecessor :: "Data \<Rightarrow> nat \<Rightarrow> nat" where
  "rankPredecessor d v = getAvailNodeRank d ! nat (getNodeRankPosition d v - 1)"

text \<open>The cut named \<open>NodeCover k i v\<close> as the statement describes it.\<close>

definition nodeCoverAsStated :: "Data \<Rightarrow> nat \<Rightarrow> nat \<Rightarrow> nat \<Rightarrow> IloRange" where
  "nodeCoverAsStated d k i v =
     \<lparr>getLB = real_of_int (minNodes d k v),
      getExpr = map (\<lambda>j. (real_of_int
                            (if getNodeRankPosition d j < getNodeRankPosition d v
                             then max (minNodes d k v - minNodes d k j + 1) 1 else 1),
                          X k i j))
                    (graphNodes d),
      getUB = None, getName = NodeCover k i v\<rparr>"

text \<open>
  Two readings of "the coefficients are monotone in the rank" for a cut on assignment
  variables: with \<open>u\<close> ranked strictly before \<open>w\<close> (so \<open>u\<close> is at least as available),
  the coefficient of \<open>u\<close> is at most that of \<open>w\<close> (\<open>coefficientsNonDecreasing\<close>, what
  the statement C5 says), or at least that of \<open>w\<close> (\<open>coefficientsNonIncreasing\<close>).
  \<open>minNodesMonotone\<close>: a node ranked later never needs fewer copies.
\<close>

definition assignedNode :: "var \<Rightarrow> nat option" where
  "assignedNode x = (case x of X k i v \<Rightarrow> Some v | Y v f \<Rightarrow> None)"

definition coefficientsNonDecreasing :: "Data \<Rightarrow> IloRange \<Rightarrow> bool" where
  "coefficientsNonDecreasing d ct =
     (\<forall>(cu, xu) \<in> set (getExpr ct). \<forall>(cw, xw) \<in> set (getExpr ct).
        \<forall>u w. assignedNode xu = Some u \<and> assignedNode xw = Some w
              \<and> getNodeRankPosition d u < getNodeRankPosition d w \<longrightarrow> cu \<le> cw)"

definition coefficientsNonIncreasing :: "Data \<Rightarrow> IloRange \<Rightarrow> bool" where
  "coefficientsNonIncreasing d ct =
     (\<forall>(cu, xu) \<in> set (getExpr ct). \<forall>(cw, xw) \<in> set (getExpr ct).
        \<forall>u w. assignedNode xu = Some u \<and> assignedNode xw = Some w
              \<and> getNodeRankPosition d u < getNodeRankPosition d w \<longrightarrow> cw \<le> cu)"

definition minNodesMonotone :: "Data \<Rightarrow> bool" where
  "minNodesMonotone d =
     (\<forall>k < getNbDemands d. \<forall>u \<in> set (graphNodes d). \<forall>w \<in> set (graphNodes d).
        getNodeRankPosition d u < getNodeRankPosition d w \<longrightarrow> minNodes d k u \<le> minNodes d k w)"








text \<open>
  For the lazy constraints.  \<open>candidate ctx\<close> is the candidate as a matrix.  An
  assignment is \<open>binaryPoint\<close> when every entry is 0 or 1.  For a binary assignment \<open>x\<close>,
  \<open>sectionAvailabilityOf\<close> is 1 minus the product of \<open>1 - availability\<close> over the nodes
  assigned to the section, and \<open>chainAvailabilityOf\<close> the product of that over the
  sections: the true availability of the chain of demand \<open>k\<close>.  \<open>pointOf x\<close> gives the
  assignment variables the values of \<open>x\<close>.
\<close>

definition candidate :: "Context \<Rightarrow> nat \<Rightarrow> nat \<Rightarrow> nat \<Rightarrow> real" where
  "candidate ctx k i v = getCandidatePoint ctx (X k i v)"

definition binaryPoint :: "(nat \<Rightarrow> nat \<Rightarrow> nat \<Rightarrow> real) \<Rightarrow> bool" where
  "binaryPoint x = (\<forall>k i v. x k i v = 0 \<or> x k i v = 1)"

definition sectionAvailabilityOf ::
  "Data \<Rightarrow> (nat \<Rightarrow> nat \<Rightarrow> nat \<Rightarrow> real) \<Rightarrow> nat \<Rightarrow> nat \<Rightarrow> real" where
  "sectionAvailabilityOf d x k i =
     1 - prod_list (map (\<lambda>v. 1 - nodeAvail d v) (filter (\<lambda>v. x k i v = 1) (graphNodes d)))"

definition chainAvailabilityOf :: "Data \<Rightarrow> (nat \<Rightarrow> nat \<Rightarrow> nat \<Rightarrow> real) \<Rightarrow> nat \<Rightarrow> real" where
  "chainAvailabilityOf d x k =
     prod_list (map (sectionAvailabilityOf d x k) [0 ..< getNbVNFs (getDemand d k)])"

definition pointOf :: "(nat \<Rightarrow> nat \<Rightarrow> nat \<Rightarrow> real) \<Rightarrow> var \<Rightarrow> real" where
  "pointOf x y = (case y of X k i v \<Rightarrow> x k i v | Y v f \<Rightarrow> 0)"

text \<open>
  The availability of the chain of demand \<open>k\<close> as the callback computes it from its
  buffer, where a node is placed when its entry is at least \<open>1 - EPS\<close>; and the same for
  one section of the matrix of a demand.
\<close>

definition placedAvailability :: "Data \<Rightarrow> (nat \<Rightarrow> nat \<Rightarrow> real) \<Rightarrow> nat \<Rightarrow> real" where
  "placedAvailability d xk i =
     1 - prod_list (map (\<lambda>v. 1 - nodeAvail d v) (filter (\<lambda>v. xk i v \<ge> 1 - EPS) (graphNodes d)))"

definition storedChainAvailability ::
  "Data \<Rightarrow> (nat \<Rightarrow> nat \<Rightarrow> nat \<Rightarrow> real) \<Rightarrow> nat \<Rightarrow> real" where
  "storedChainAvailability d xs k =
     prod_list (map (\<lambda>i. getAvailabilityOfSection d k i xs) [0 ..< getNbVNFs (getDemand d k)])"

text \<open>The availabilities of the nodes are probabilities.\<close>

definition availabilitiesInRange :: "Data \<Rightarrow> bool" where
  "availabilitiesInRange d =
     (\<forall>v \<in> set (graphNodes d). 0 \<le> nodeAvail d v \<and> nodeAvail d v \<le> 1)"

text \<open>
  The nogood of demand \<open>k\<close> for the matrix \<open>xl\<close> (the candidate with the positions that
  \<open>lift\<close> marked) and the sections \<open>secs\<close>: the sum of the variables of the nodes that
  are not placed in these sections is at least 1.
\<close>

definition nogood :: "Data \<Rightarrow> nat \<Rightarrow> (nat \<Rightarrow> nat \<Rightarrow> real) \<Rightarrow> nat list \<Rightarrow> IloRange" where
  "nogood d k xl secs =
     \<lparr>getLB = 1,
      getExpr = concat (map (\<lambda>i. map (\<lambda>v. (1, X k i v))
                                     (filter (\<lambda>v. xl i v < 1 - EPS) (graphNodes d))) secs),
      getUB = None, getName = Unnamed\<rparr>"

text \<open>
  What \<open>lift\<close> keeps true of its state, the matrix of the demand and the vector of the
  sections (\<open>sa0\<close> is the vector at the start, \<open>m\<close> the number of selected sections): the
  sections of the vector are those of the start, each availability is that of its
  section in the matrix, and the product over the selected sections is below the
  requirement.
\<close>

definition liftInv ::
  "Data \<Rightarrow> real \<Rightarrow> nat \<Rightarrow> MapAvailability list \<Rightarrow>
   (nat \<Rightarrow> nat \<Rightarrow> real) \<times> MapAvailability list \<Rightarrow> bool" where
  "liftInv d req m sa0 st =
     (map ma_section (snd st) = map ma_section sa0
      \<and> (\<forall>s < length (snd st).
            ma_availability (snd st ! s) = placedAvailability d (fst st) (ma_section (snd st ! s)))
      \<and> prod_list (map ma_availability (take m (snd st))) < req)"

text \<open>The sections of demand \<open>k\<close> with their availabilities in the candidate, sorted.\<close>

definition candidateSections :: "Platform \<Rightarrow> Data \<Rightarrow> Context \<Rightarrow> nat \<Rightarrow> MapAvailability list" where
  "candidateSections P d ctx k = std_sort P (getAvailabilitiesOfSections d k (candidate ctx))"

text \<open>
  The nogood as the statement C1 has it: over the selected sections and the nodes that
  the candidate does not assign to them.
\<close>

definition nogoodAsStated :: "Data \<Rightarrow> Context \<Rightarrow> nat \<Rightarrow> nat list \<Rightarrow> IloRange" where
  "nogoodAsStated d ctx k secs = nogood d k (candidate ctx k) secs"

section \<open>General lemmas\<close>

lemma fold_keeps:
  assumes "\<And>x s. f (g x s) = f s"
  shows "f (fold g xs st) = f st"
  using assms by (induction xs arbitrary: st) auto

lemma firstSome_append:
  "firstSome (xs @ ys) = (case firstSome xs of None \<Rightarrow> firstSome ys | Some c \<Rightarrow> Some c)"
  by (induction xs rule: firstSome.induct) auto

section \<open>The dispatcher\<close>

text \<open>
  C6, as the code has it.  An event that is neither a relaxation nor a candidate makes
  \<open>invoke\<close> throw.  \<open>getIntegerSolution\<close>, and with it \<open>addLazyConstraints\<close>, throws on
  a candidate that is not a point; but \<open>invoke\<close> calls \<open>addLazyConstraints\<close> only for a
  candidate that is a point, so on an unbounded candidate it throws nothing, rejects
  nothing and returns after adding the time spent.
\<close>

theorem invoke_defects:
  "(getId ctx \<noteq> Relaxation \<and> getId ctx \<noteq> Candidate
      \<longrightarrow> invoke fuel P d ctx st = Throws UnexpectedContextId)
   \<and> (getId ctx = Candidate \<and> \<not> isCandidatePoint ctx
      \<longrightarrow> getIntegerSolution d ctx st = Inl UnboundedSolution
        \<and> addLazyConstraints P d ctx st = Inl UnboundedSolution
        \<and> invoke fuel P d ctx st
            = Returns (st\<lparr>timeAll := timeAll st + (getTimeEnd ctx - getTimeStart ctx)\<rparr>))"
  by (cases "getId ctx")
     (simp_all add: invoke_def dispatch_def getIntegerSolution_def addLazyConstraints_def
       incrementTime_def)

theorem invoke_defects_witness:
  "invoke 1 exPlatform exData (exCandidate\<lparr>getId := Branching\<rparr>) exCallback
     = Throws UnexpectedContextId
   \<and> getIntegerSolution exData (exCandidate\<lparr>isCandidatePoint := False\<rparr>) exCallback
     = Inl UnboundedSolution
   \<and> invoke 1 exPlatform exData (exCandidate\<lparr>isCandidatePoint := False\<rparr>) exCallback
     = Returns (exCallback\<lparr>timeAll := timeAll exCallback + (1 - 0)\<rparr>)"
  using invoke_defects [where ctx = "exCandidate\<lparr>getId := Branching\<rparr>" and fuel = 1
      and P = exPlatform and d = exData and st = exCallback]
    invoke_defects [where ctx = "exCandidate\<lparr>isCandidatePoint := False\<rparr>" and fuel = 1
      and P = exPlatform and d = exData and st = exCallback]
  by (simp add: exCandidate_def)

text \<open>
  The claim C6 as stated fails: on a candidate event that carries an unbounded solution,
  \<open>invoke\<close> returns normally.
\<close>

theorem invoke_unbounded_candidate_returns:
  "invoke 1 exPlatform exData (exCandidate\<lparr>isCandidatePoint := False\<rparr>) exCallback
     = Returns (exCallback\<lparr>timeAll := 1\<rparr>)"
  by (simp add: invoke_def dispatch_def exCandidate_def incrementTime_def exCallback_def)

section \<open>Generalized cover separation\<close>

lemma genCoverPrefixes_first:
  "genCoverPrefixes P d k limit_node nbs st =
     (case firstSome (map (genCoverCut P d st k limit_node) nbs) of
        None \<Rightarrow> (False, st)
      | Some ct \<Rightarrow> (True, incrementUsercuts (addUserCut ct st)))"
  by (induction nbs) (auto split: option.splits)

lemma genCoverProbes_first:
  "genCoverProbes P d k probes st =
     (case firstSome (concat (map (\<lambda>limit_node.
              map (genCoverCut P d st k limit_node) [1 ..< getNbVNFs (getDemand d k) + 1]) probes)) of
        None \<Rightarrow> (False, st)
      | Some ct \<Rightarrow> (True, incrementUsercuts (addUserCut ct st)))"
  by (induction probes) (auto simp: genCoverPrefixes_first firstSome_append split: option.splits)

lemma genCoverDemands_first:
  "genCoverDemands P d ks st =
     (case firstSome (concat (map (\<lambda>k. concat (map (\<lambda>limit_node.
              map (genCoverCut P d st k limit_node) [1 ..< getNbVNFs (getDemand d k) + 1])
              (graphNodes d))) ks)) of
        None \<Rightarrow> (False, st)
      | Some ct \<Rightarrow> (True, incrementUsercuts (addUserCut ct st)))"
  by (induction ks) (auto simp: genCoverProbes_first firstSome_append split: option.splits)


section \<open>Checking the pool\<close>

lemma checkCutPool_fold:
  "fold (\<lambda>ct (found_violated_cut, st).
             if isViolated ctx ct then (True, incrementUsercuts (addUserCut ct st))
             else (found_violated_cut, st)) pool (b, st) =
   (b \<or> (\<exists>ct \<in> set pool. isViolated ctx ct),
    st\<lparr>userCuts := userCuts st @ filter (isViolated ctx) pool,
       nbCuts := nbCuts st + int (length (filter (isViolated ctx) pool))\<rparr>)"
  by (induction pool arbitrary: b st) (auto simp: incrementUsercuts_def addUserCut_def)

lemma checkCutPool_eq:
  "checkCutPool ctx st =
   ((\<exists>ct \<in> set (cutPool st). isViolated ctx ct),
    st\<lparr>userCuts := userCuts st @ filter (isViolated ctx) (cutPool st),
       nbCuts := nbCuts st + int (length (filter (isViolated ctx) (cutPool st)))\<rparr>)"
  by (simp add: checkCutPool_def checkCutPool_fold)

text \<open>
  C8.  Checking the pool a second time on the same relaxation hands the solver the same
  cuts again: the set of the cuts handed over after two checks is the set after one, the
  answer is the same, and the pool is not changed.  (The second check does submit the
  violated cuts once more, and counts them once more.)
\<close>

theorem checkCutPool_idempotent:
  "set (userCuts (snd (checkCutPool ctx (snd (checkCutPool ctx st)))))
     = set (userCuts (snd (checkCutPool ctx st)))
   \<and> fst (checkCutPool ctx (snd (checkCutPool ctx st))) = fst (checkCutPool ctx st)
   \<and> cutPool (snd (checkCutPool ctx st)) = cutPool st"
  by (auto simp: checkCutPool_eq)

section \<open>User cuts and the matheuristic\<close>

lemma cutsCounted_refl: "cutsCounted st st"
  by (simp add: cutsCounted_def)

lemma cutsCounted_trans: "cutsCounted a b \<Longrightarrow> cutsCounted b c \<Longrightarrow> cutsCounted a c"
  by (auto simp: cutsCounted_def)

lemma cutsCounted_same:
  "userCuts b = userCuts a \<Longrightarrow> nbCuts b = nbCuts a \<Longrightarrow> cutsCounted a b"
  by (simp add: cutsCounted_def)

lemma cutsCounted_add: "cutsCounted st (incrementUsercuts (addUserCut ct st))"
  by (simp add: cutsCounted_def incrementUsercuts_def addUserCut_def)

lemma cutsCounted_fold:
  assumes "\<And>x s. cutsCounted s (g x s)"
  shows "cutsCounted st (fold g xs st)"
  using assms by (induction xs arbitrary: st) (auto intro: cutsCounted_refl cutsCounted_trans)

lemma getFractionalSolution_cuts:
  assumes "getFractionalSolution d ctx st = Inr st1"
  shows "userCuts st1 = userCuts st \<and> nbCuts st1 = nbCuts st"
proof -
  have u: "\<And>k i v a s. userCuts (set_xSol k i v a s) = userCuts s"
    and n: "\<And>k i v a s. nbCuts (set_xSol k i v a s) = nbCuts s"
    by (simp_all add: set_xSol_def)
  from assms show ?thesis
    by (auto simp: getFractionalSolution_def fold_keeps u n split: if_splits)
qed

lemma checkCutPool_counted: "cutsCounted st (snd (checkCutPool ctx st))"
  by (simp add: checkCutPool_eq cutsCounted_def)

lemma chainCoverPrefixes_counted:
  "cutsCounted st (chainCoverPrefixes d k son srt nbs st)"
  by (induction nbs) (auto simp: Let_def cutsCounted_refl cutsCounted_add)

lemma chainCoverSeparation_counted: "cutsCounted st (chainCoverSeparation P d st)"
  unfolding chainCoverSeparation_def
  by (rule cutsCounted_fold) (simp add: Let_def chainCoverPrefixes_counted)

lemma generalizedCoverSeparation_counted:
  "cutsCounted st (generalizedCoverSeparation P d st)"
  by (simp add: generalizedCoverSeparation_def genCoverDemands_first cutsCounted_refl
      cutsCounted_add split: option.splits)

lemma heuristicSeparation_k_counted:
  assumes "heuristicSeparation_k fuel d k st = Returns st1"
  shows "cutsCounted st st1"
  using assms
  by (auto simp: heuristicSeparation_k_def Let_def cutsCounted_def incrementUsercuts_def
      incrementAvailabilityCutsHeuristic_def addUserCut_def
      split: sum.splits prod.splits if_splits outcome.splits)

lemma heuristicSeparationDemands_counted:
  "heuristicSeparationDemands fuel d ks st = Returns st1 \<Longrightarrow> cutsCounted st st1"
proof (induction ks arbitrary: st)
  case Nil
  then show ?case by (simp add: cutsCounted_refl)
next
  case (Cons k ks)
  then show ?case
    by (auto split: outcome.splits dest: heuristicSeparation_k_counted intro: cutsCounted_trans)
qed

lemma addUserCuts_counted:
  assumes "addUserCuts fuel P d ctx st = Returns st1"
  shows "cutsCounted st st1"
proof -
  from assms obtain s1 where f: "getFractionalSolution d ctx st = Inr s1"
    by (auto simp: addUserCuts_def split: sum.splits)
  obtain found s2 where c: "checkCutPool ctx s1 = (found, s2)"
    by (cases "checkCutPool ctx s1")
  have a: "cutsCounted st s1"
    using getFractionalSolution_cuts [OF f] by (simp add: cutsCounted_same)
  have b: "cutsCounted s1 s2"
    using checkCutPool_counted [of s1 ctx] c by simp
  define s3 where "s3 = (if getChainCover (getInput d) = CHAIN_COVER_ON
                            then chainCoverSeparation P d (generalizedCoverSeparation P d s2)
                            else s2)"
  have c3: "cutsCounted s2 s3"
    unfolding s3_def
    by (auto intro: cutsCounted_refl cutsCounted_trans generalizedCoverSeparation_counted
        chainCoverSeparation_counted)
  show ?thesis
  proof (cases found)
    case True
    with assms f c have "st1 = s2" by (simp add: addUserCuts_def)
    with a b show ?thesis by (auto intro: cutsCounted_trans)
  next
    case False
    with assms f c have
      "(if getAvailabilityUsercuts (getInput d) = AVAILABILITY_USERCUTS_ON
        then heuristicSeparationOfAvailibilityConstraints fuel d s3 else Returns s3) = Returns st1"
      unfolding s3_def by (simp add: addUserCuts_def Let_def split del: if_split)
    then have "cutsCounted s3 st1"
      by (auto simp: heuristicSeparationOfAvailibilityConstraints_def cutsCounted_refl
          dest: heuristicSeparationDemands_counted split: if_splits)
    with a b c3 show ?thesis by (blast intro: cutsCounted_trans)
  qed
qed

text \<open>
  C9.  On a relaxation event on which \<open>addUserCuts\<close> returns, the user cuts handed to
  the solver during the invocation are counted by \<open>nbCuts\<close>, whichever routine added
  them (the check of the pool or a separation routine).  \<open>invoke\<close> goes on with
  \<open>runHeuristic\<close> when none was added; when one was added it returns the state that
  \<open>addUserCuts\<close> left, with the time added and nothing else: \<open>runHeuristic\<close> is not
  called.
\<close>

theorem heuristic_only_without_new_cuts:
  assumes "getId ctx = Relaxation"
    and "addUserCuts fuel P d ctx st = Returns st1"
  shows "\<exists>new. userCuts st1 = userCuts st @ new
           \<and> nbCuts st1 = nbCuts st + int (length new)
           \<and> invoke fuel P d ctx st =
               (if new = [] then
                  (case runHeuristic fuel P d ctx st1 of
                     Returns st2 \<Rightarrow> Returns (incrementTime (getTimeEnd ctx - getTimeStart ctx) st2)
                   | Throws e \<Rightarrow> Throws e
                   | OutOfFuel \<Rightarrow> OutOfFuel)
                else Returns (incrementTime (getTimeEnd ctx - getTimeStart ctx) st1))"
proof -
  from addUserCuts_counted [OF assms(2)] obtain new where
    n: "userCuts st1 = userCuts st @ new" "nbCuts st1 = nbCuts st + int (length new)"
    by (auto simp: cutsCounted_def)
  have "dispatch fuel P d ctx st =
          (if new = [] then runHeuristic fuel P d ctx st1 else Returns st1)"
    using assms n by (simp add: dispatch_def getNbUserCuts_def)
  then have "invoke fuel P d ctx st =
               (if new = [] then
                  (case runHeuristic fuel P d ctx st1 of
                     Returns st2 \<Rightarrow> Returns (incrementTime (getTimeEnd ctx - getTimeStart ctx) st2)
                   | Throws e \<Rightarrow> Throws e
                   | OutOfFuel \<Rightarrow> OutOfFuel)
                else Returns (incrementTime (getTimeEnd ctx - getTimeStart ctx) st1))"
    by (simp add: invoke_def)
  with n show ?thesis by blast
qed

lemma ex_addUserCuts:
  "addUserCuts 1 exPlatform exPoolOnly exRelaxation (exCallback\<lparr>cutPool := [exNodeCover]\<rparr>)
   = Returns ((set_xSol 0 0 2 (1 / 2) (set_xSol 0 0 1 (1 / 2) (set_xSol 0 0 0 (1 / 2)
        (exCallback\<lparr>cutPool := [exNodeCover]\<rparr>))))\<lparr>userCuts := [exNodeCover], nbCuts := 1\<rparr>)"
  by (simp add: addUserCuts_def getFractionalSolution_def checkCutPool_def isViolated_def
      evalExpr_def exPoolOnly_def exData_def exInput_def exRelaxation_def exCallback_def
      exNodeCover_def getNbDemands_def getDemand_def getNbVNFs_def EPS_def
      incrementUsercuts_def addUserCut_def set_xSol_def)

theorem heuristic_only_without_new_cuts_witness:
  "invoke 1 exPlatform exPoolOnly exRelaxation (exCallback\<lparr>cutPool := [exNodeCover]\<rparr>)
   = Returns (incrementTime 1
       ((set_xSol 0 0 2 (1 / 2) (set_xSol 0 0 1 (1 / 2) (set_xSol 0 0 0 (1 / 2)
          (exCallback\<lparr>cutPool := [exNodeCover]\<rparr>))))\<lparr>userCuts := [exNodeCover], nbCuts := 1\<rparr>))"
proof -
  have r: "getId exRelaxation = Relaxation"
    by (simp add: exRelaxation_def)
  have t: "getTimeEnd exRelaxation - getTimeStart exRelaxation = 1"
    by (simp add: exRelaxation_def)
  have u: "userCuts (exCallback\<lparr>cutPool := [exNodeCover]\<rparr>) = []"
    by (simp add: exCallback_def)
  from heuristic_only_without_new_cuts [OF r ex_addUserCuts]
  show ?thesis
    by (auto simp: t u)
qed

section \<open>Node-cover cuts\<close>

lemma coverCoefficients_fold:
  "length (fold (\<lambda>v c. c[v := g v]) vs c0) = length c0
   \<and> (\<forall>v < length c0. fold (\<lambda>v c. c[v := g v]) vs c0 ! v = (if v \<in> set vs then g v else c0 ! v))"
  by (induction vs arbitrary: c0) (auto simp: nth_list_update)

lemma coverCoefficients_nth:
  assumes "v \<in> set (getAvailNodeRank d)" and "v < length (getAvailNodeRank d)"
  shows "coverCoefficients d k ! v = minNodes d k v"
  using assms
    coverCoefficients_fold [of "\<lambda>v. getMinNbNodes d (getAvailability (getDemand d k)) (nodeAvail d v)"
      "getAvailNodeRank d" "replicate (length (getAvailNodeRank d)) 0"]
  by (simp add: coverCoefficients_def minNodes_def)

lemma rankWellFormed_node:
  assumes "rankWellFormed d" and "v \<in> set (graphNodes d)"
  shows "v \<in> set (getAvailNodeRank d) \<and> v < length (getAvailNodeRank d)"
proof -
  from assms have p: "nat (getNodeRankPosition d v) < length (getAvailNodeRank d)"
    and e: "getAvailNodeRank d ! nat (getNodeRankPosition d v) = v"
    and a: "\<forall>u \<in> set (getAvailNodeRank d). u < length (getAvailNodeRank d)"
    by (auto simp: rankWellFormed_def list_all_iff)
  from p e have "v \<in> set (getAvailNodeRank d)"
    by (metis nth_mem)
  with a show ?thesis by blast
qed

lemma rankWellFormed_predecessor:
  assumes "rankWellFormed d" and "v \<in> set (graphNodes d)" and "getNodeRankPosition d v > 0"
  shows "rankPredecessor d v \<in> set (getAvailNodeRank d)
         \<and> rankPredecessor d v < length (getAvailNodeRank d)"
proof -
  from assms have p: "nat (getNodeRankPosition d v) < length (getAvailNodeRank d)"
    and a: "\<forall>u \<in> set (getAvailNodeRank d). u < length (getAvailNodeRank d)"
    by (auto simp: rankWellFormed_def list_all_iff)
  from p assms(3) have "nat (getNodeRankPosition d v - 1) < length (getAvailNodeRank d)"
    by linarith
  then have "rankPredecessor d v \<in> set (getAvailNodeRank d)"
    by (simp add: rankPredecessor_def)
  with a show ?thesis by blast
qed

lemma nodeCoverCut_asStated:
  assumes "rankWellFormed d" and "v \<in> set (graphNodes d)"
  shows "nodeCoverCut d (coverCoefficients d k) k i v = nodeCoverAsStated d k i v"
proof -
  have c: "\<And>j. j \<in> set (graphNodes d) \<Longrightarrow> coverCoefficients d k ! j = minNodes d k j"
    using rankWellFormed_node [OF assms(1)] coverCoefficients_nth by blast
  show ?thesis
    using c [OF assms(2)] by (simp add: nodeCoverCut_def nodeCoverAsStated_def nodeCoverCoeff_def c)
qed

lemma fold_cutPool:
  assumes "\<And>x s. cutPool (g x s) = cutPool s @ h x"
  shows "cutPool (fold g xs st) = cutPool st @ concat (map h xs)"
  using assms by (induction xs arbitrary: st) auto

lemma concat_map_if: "concat (map (\<lambda>x. if p x then [f x] else []) xs) = map f (filter p xs)"
  by (induction xs) auto

lemma addAvailabilityCoverConstraints_pool:
  "cutPool (addAvailabilityCoverConstraints d st)
   = cutPool st @ concat (map (\<lambda>k. concat (map (\<lambda>i. map (nodeCoverCut d (coverCoefficients d k) k i)
       (filter (\<lambda>v. getNodeRankPosition d v > 0
                    \<and> coverCoefficients d k ! v > coverCoefficients d k ! rankPredecessor d v)
          (graphNodes d))) [0 ..< getNbVNFs (getDemand d k)])) [0 ..< getNbDemands d])"
  unfolding addAvailabilityCoverConstraints_def Let_def
  apply (rule fold_cutPool)
  apply (rule fold_cutPool)
  apply (simp only: concat_map_if [symmetric])
  apply (rule fold_cutPool)
  apply (simp add: rankPredecessor_def)
  done

lemma nodeCover_in_pool:
  assumes "rankWellFormed d" and "cutPool st = []"
  shows "ct \<in> set (cutPool (addAvailabilityCoverConstraints d st)) \<longleftrightarrow>
         (\<exists>k < getNbDemands d. \<exists>i < getNbVNFs (getDemand d k). \<exists>v \<in> set (graphNodes d).
            getNodeRankPosition d v > 0
            \<and> minNodes d k v > minNodes d k (rankPredecessor d v)
            \<and> ct = nodeCoverAsStated d k i v)"
    (is "?L \<longleftrightarrow> ?R")
proof -
  have c: "\<And>k v. v \<in> set (graphNodes d) \<Longrightarrow> coverCoefficients d k ! v = minNodes d k v"
    using rankWellFormed_node [OF assms(1)] coverCoefficients_nth by blast
  have p: "\<And>k v. v \<in> set (graphNodes d) \<Longrightarrow> getNodeRankPosition d v > 0 \<Longrightarrow>
             coverCoefficients d k ! rankPredecessor d v = minNodes d k (rankPredecessor d v)"
    using rankWellFormed_predecessor [OF assms(1)] coverCoefficients_nth by blast
  have pool: "set (cutPool (addAvailabilityCoverConstraints d st)) =
     (\<Union>k \<in> {0 ..< getNbDemands d}. \<Union>i \<in> {0 ..< getNbVNFs (getDemand d k)}.
        nodeCoverCut d (coverCoefficients d k) k i `
          {v \<in> set (graphNodes d). getNodeRankPosition d v > 0
             \<and> coverCoefficients d k ! v > coverCoefficients d k ! rankPredecessor d v})"
    unfolding addAvailabilityCoverConstraints_pool assms(2) by auto
  show ?thesis
  proof
    assume ?L
    then obtain k i v where h: "k < getNbDemands d" "i < getNbVNFs (getDemand d k)"
      "v \<in> set (graphNodes d)" "getNodeRankPosition d v > 0"
      "coverCoefficients d k ! v > coverCoefficients d k ! rankPredecessor d v"
      "ct = nodeCoverCut d (coverCoefficients d k) k i v"
      unfolding pool by auto
    from h(5) have "minNodes d k v > minNodes d k (rankPredecessor d v)"
      by (simp add: c [OF h(3)] p [OF h(3,4)])
    moreover from h(6) have "ct = nodeCoverAsStated d k i v"
      by (simp add: nodeCoverCut_asStated [OF assms(1) h(3)])
    ultimately show ?R
      using h(1-4) by blast
  next
    assume ?R
    then obtain k i v where h: "k < getNbDemands d" "i < getNbVNFs (getDemand d k)"
      "v \<in> set (graphNodes d)" "getNodeRankPosition d v > 0"
      "minNodes d k v > minNodes d k (rankPredecessor d v)"
      "ct = nodeCoverAsStated d k i v"
      by blast
    from h(5) have g: "coverCoefficients d k ! v > coverCoefficients d k ! rankPredecessor d v"
      by (simp add: c [OF h(3)] p [OF h(3,4)])
    from h(6) have e: "ct = nodeCoverCut d (coverCoefficients d k) k i v"
      by (simp add: nodeCoverCut_asStated [OF assms(1) h(3)])
    have "v \<in> {v \<in> set (graphNodes d). getNodeRankPosition d v > 0
             \<and> coverCoefficients d k ! v > coverCoefficients d k ! rankPredecessor d v}"
      using h(3,4) g by simp
    then have "ct \<in> nodeCoverCut d (coverCoefficients d k) k i `
          {v \<in> set (graphNodes d). getNodeRankPosition d v > 0
             \<and> coverCoefficients d k ! v > coverCoefficients d k ! rankPredecessor d v}"
      unfolding e by (rule imageI)
    then show ?L
      unfolding pool using h(1,2) by force
  qed
qed

text \<open>
  C4.  With a well-formed ranking and a pool that is empty before (as in the
  constructor), for a demand \<open>k\<close>, a section \<open>i\<close> and a node \<open>v\<close> of rank position
  greater than 0: the pool has a cut named \<open>NodeCover k i v\<close> exactly when \<open>c(v)\<close>
  exceeds \<open>c\<close> of the node that precedes \<open>v\<close> in the ranking, and that cut is the one of
  the statement: right-hand side \<open>c(v)\<close>, coefficient \<open>max (c(v) - c(j) + 1) 1\<close> on the
  nodes \<open>j\<close> ranked before \<open>v\<close> and 1 on the others.
\<close>

theorem nodeCover_cut_iff:
  assumes "rankWellFormed d" and "cutPool st = []"
    and "k < getNbDemands d" and "i < getNbVNFs (getDemand d k)"
    and "v \<in> set (graphNodes d)" and "getNodeRankPosition d v > 0"
  shows "((\<exists>ct \<in> set (cutPool (addAvailabilityCoverConstraints d st)). getName ct = NodeCover k i v)
           \<longleftrightarrow> minNodes d k v > minNodes d k (rankPredecessor d v))
         \<and> (\<forall>ct \<in> set (cutPool (addAvailabilityCoverConstraints d st)).
               getName ct = NodeCover k i v \<longrightarrow> ct = nodeCoverAsStated d k i v)"
proof -
  have n: "\<And>k' i' v'. getName (nodeCoverAsStated d k' i' v') = NodeCover k' i' v'"
    by (simp add: nodeCoverAsStated_def)
  have m: "\<And>ct. ct \<in> set (cutPool (addAvailabilityCoverConstraints d st)) \<longleftrightarrow>
         (\<exists>k < getNbDemands d. \<exists>i < getNbVNFs (getDemand d k). \<exists>v \<in> set (graphNodes d).
            getNodeRankPosition d v > 0
            \<and> minNodes d k v > minNodes d k (rankPredecessor d v)
            \<and> ct = nodeCoverAsStated d k i v)"
    by (rule nodeCover_in_pool [OF assms(1,2)])
  have a: "\<And>ct. ct \<in> set (cutPool (addAvailabilityCoverConstraints d st)) \<Longrightarrow>
              getName ct = NodeCover k i v \<Longrightarrow>
              ct = nodeCoverAsStated d k i v \<and> minNodes d k v > minNodes d k (rankPredecessor d v)"
    unfolding m by (auto simp: n)
  have b: "minNodes d k v > minNodes d k (rankPredecessor d v) \<Longrightarrow>
             nodeCoverAsStated d k i v \<in> set (cutPool (addAvailabilityCoverConstraints d st))"
    unfolding m using assms(3-6) by blast
  show ?thesis
    using a b n by blast
qed

lemma exData_rankWellFormed: "rankWellFormed exData"
  by (simp add: rankWellFormed_def exData_def)

lemma exData_minNodes:
  "minNodes exData 0 0 = 2" "minNodes exData 0 1 = 3" "minNodes exData 0 2 = 2"
  "minNodes exData 0 (Suc 0) = 3"
  by (simp_all add: minNodes_def exData_def nodeAvail_def exNode_def getDemand_def
      eval_nat_numeral)

lemma exData_nodeCoverAsStated: "nodeCoverAsStated exData 0 0 1 = exNodeCover"
proof -
  have g: "graphNodes exData = [0, 1, 2]"
    and r: "getNodeRankPosition exData = (\<lambda>v. if v = 2 then 0 else if v = 0 then 1 else 2)"
    by (simp_all add: exData_def)
  show ?thesis
    by (simp add: nodeCoverAsStated_def exNodeCover_def g r exData_minNodes)
qed

theorem nodeCover_cut_iff_witness:
  "\<exists>ct \<in> set (cutPool (addAvailabilityCoverConstraints exData exCallback)).
      getName ct = NodeCover 0 0 1 \<and> ct = exNodeCover"
proof -
  have a: "cutPool exCallback = []"
    by (simp add: exCallback_def)
  have b: "0 < getNbDemands exData" "0 < getNbVNFs (getDemand exData 0)"
    "1 \<in> set (graphNodes exData)" "getNodeRankPosition exData 1 > 0"
    by (simp_all add: exData_def getNbDemands_def getNbVNFs_def getDemand_def)
  have p: "rankPredecessor exData 1 = 0"
    by (simp add: rankPredecessor_def exData_def)
  have g: "minNodes exData 0 1 > minNodes exData 0 (rankPredecessor exData 1)"
    unfolding p by (simp add: exData_minNodes)
  from nodeCover_cut_iff [OF exData_rankWellFormed a b] g
  show ?thesis
    unfolding exData_nodeCoverAsStated by blast
qed

lemma nodeCoverAsStated_nonIncreasing:
  assumes "\<forall>u \<in> set (graphNodes d). \<forall>w \<in> set (graphNodes d).
        getNodeRankPosition d u < getNodeRankPosition d w \<longrightarrow> minNodes d k u \<le> minNodes d k w"
  shows "coefficientsNonIncreasing d (nodeCoverAsStated d k i v)"
proof -
  have m: "\<And>u w. u \<in> set (graphNodes d) \<Longrightarrow> w \<in> set (graphNodes d) \<Longrightarrow>
             getNodeRankPosition d u < getNodeRankPosition d w \<Longrightarrow>
             minNodes d k v - minNodes d k w + 1 \<le> max (minNodes d k v - minNodes d k u + 1) 1"
  proof -
    fix u w
    assume "u \<in> set (graphNodes d)" "w \<in> set (graphNodes d)"
      "getNodeRankPosition d u < getNodeRankPosition d w"
    with assms have "minNodes d k u \<le> minNodes d k w" by blast
    then show "minNodes d k v - minNodes d k w + 1 \<le> max (minNodes d k v - minNodes d k u + 1) 1"
      by linarith
  qed
  show ?thesis
    unfolding coefficientsNonIncreasing_def nodeCoverAsStated_def
    by (auto simp: assignedNode_def m)
qed

text \<open>
  C5, as the code has it.  In a node-cover cut of the pool the coefficients do not
  increase as the rank worsens: a node ranked strictly before another has a coefficient
  at least as large, provided that a node ranked later never needs fewer copies
  (\<open>minNodesMonotone\<close>).
\<close>

theorem nodeCover_coefficients_nonIncreasing:
  assumes "rankWellFormed d" and "cutPool st = []" and "minNodesMonotone d"
    and "ct \<in> set (cutPool (addAvailabilityCoverConstraints d st))"
  shows "coefficientsNonIncreasing d ct"
proof -
  from assms(4) obtain k i v where h: "k < getNbDemands d" "ct = nodeCoverAsStated d k i v"
    unfolding nodeCover_in_pool [OF assms(1,2)] by blast
  from assms(3) h(1) have "\<forall>u \<in> set (graphNodes d). \<forall>w \<in> set (graphNodes d).
        getNodeRankPosition d u < getNodeRankPosition d w \<longrightarrow> minNodes d k u \<le> minNodes d k w"
    by (simp add: minNodesMonotone_def)
  then show ?thesis
    unfolding h(2) by (rule nodeCoverAsStated_nonIncreasing)
qed

lemma exNodeCover_in_pool:
  "exNodeCover \<in> set (cutPool (addAvailabilityCoverConstraints exData exCallback))"
proof -
  have a: "cutPool exCallback = []"
    by (simp add: exCallback_def)
  have b: "0 < getNbDemands exData" "0 < getNbVNFs (getDemand exData 0)"
    "1 \<in> set (graphNodes exData)" "getNodeRankPosition exData 1 > 0"
    by (simp_all add: exData_def getNbDemands_def getNbVNFs_def getDemand_def)
  have p: "rankPredecessor exData 1 = 0"
    by (simp add: rankPredecessor_def exData_def)
  have g: "minNodes exData 0 1 > minNodes exData 0 (rankPredecessor exData 1)"
    unfolding p by (simp add: exData_minNodes)
  show ?thesis
    unfolding nodeCover_in_pool [OF exData_rankWellFormed a]
    by (metis b g exData_nodeCoverAsStated)
qed

lemma exData_minNodesMonotone: "minNodesMonotone exData"
proof -
  have g: "getNbDemands exData = 1" "graphNodes exData = [0, 1, 2]"
    and r: "getNodeRankPosition exData = (\<lambda>v. if v = 2 then 0 else if v = 0 then 1 else 2)"
    by (simp_all add: exData_def getNbDemands_def)
  show ?thesis
    by (simp add: minNodesMonotone_def g r exData_minNodes)
qed

theorem nodeCover_coefficients_nonIncreasing_witness:
  "exNodeCover \<in> set (cutPool (addAvailabilityCoverConstraints exData exCallback))
   \<and> coefficientsNonIncreasing exData exNodeCover"
proof -
  have a: "cutPool exCallback = []"
    by (simp add: exCallback_def)
  from nodeCover_coefficients_nonIncreasing
         [OF exData_rankWellFormed a exData_minNodesMonotone exNodeCover_in_pool]
    exNodeCover_in_pool
  show ?thesis by blast
qed

text \<open>
  The claim C5 as stated fails on the instance: the pool has the cut
  \<open>2 x\<^sub>0 + x\<^sub>1 + 2 x\<^sub>2 \<ge> 3\<close>, in which node 0, ranked before node 1, has the larger
  coefficient.
\<close>

theorem nodeCover_coefficients_not_nonDecreasing:
  "exNodeCover \<in> set (cutPool (addAvailabilityCoverConstraints exData exCallback))
   \<and> getNodeRankPosition exData 0 < getNodeRankPosition exData 1
   \<and> getExpr exNodeCover = [(2, X 0 0 0), (1, X 0 0 1), (2, X 0 0 2)]
   \<and> \<not> coefficientsNonDecreasing exData exNodeCover"
proof -
  have r: "getNodeRankPosition exData 0 < getNodeRankPosition exData 1"
    by (simp add: exData_def)
  have e: "getExpr exNodeCover = [(2, X 0 0 0), (1, X 0 0 1), (2, X 0 0 2)]"
    by (simp add: exNodeCover_def)
  have "\<not> coefficientsNonDecreasing exData exNodeCover"
  proof
    assume c: "coefficientsNonDecreasing exData exNodeCover"
    have "(2, X 0 0 0) \<in> set (getExpr exNodeCover)" "(1, X 0 0 1) \<in> set (getExpr exNodeCover)"
      by (simp_all add: e)
    with c r have "(2 :: real) \<le> 1"
      unfolding coefficientsNonDecreasing_def by (fastforce simp: assignedNode_def)
    then show False by simp
  qed
  with exNodeCover_in_pool r e show ?thesis by blast
qed

section \<open>The seed of the generator\<close>



text \<open>No routine but the constructor sets the seed.\<close>

lemma rngSeed_simple [simp]:
  "rngSeed (set_xSol k i v a st) = rngSeed st"
  "rngSeed (set_ySol v f a st) = rngSeed st"
  "rngSeed (incrementUsercuts st) = rngSeed st"
  "rngSeed (incrementLazyConstraints st) = rngSeed st"
  "rngSeed (incrementAvailabilityCutsHeuristic st) = rngSeed st"
  "rngSeed (incrementTime t st) = rngSeed st"
  "rngSeed (addUserCut ct st) = rngSeed st"
  "rngSeed (rejectCandidate ct st) = rngSeed st"
  "rngSeed (insertHeuristicSolution d st) = rngSeed st"
  by (simp_all add: set_xSol_def set_ySol_def incrementUsercuts_def incrementLazyConstraints_def
      incrementAvailabilityCutsHeuristic_def incrementTime_def addUserCut_def
      rejectCandidate_def insertHeuristicSolution_def Let_def)
















































section \<open>Capacities in the matheuristic\<close>














lemma placeVnf_frame:
  "xSol (placeVnf P d ctx v f st) = xSol st
   \<and> remainingCapacity (placeVnf P d ctx v f st) = remainingCapacity st"
  by (auto simp: placeVnf_def drawRND_def set_ySol_def)



text \<open>Phase II: the node chosen by \<open>getNodeToInstall\<close> has the capacity that is asked.\<close>

lemma fold_invariant_set:
  assumes "\<And>x s. x \<in> set xs \<Longrightarrow> I s \<Longrightarrow> I (g x s)" and "I st"
  shows "I (fold g xs st)"
  using assms by (induction xs arbitrary: st) auto













section \<open>Lazy constraints: availabilities and the selection of sections\<close>

lemma fold_failure_prob:
  "fold (\<lambda>v fp. if p v then fp * f v else fp) vs (a :: real)
     = a * prod_list (map f (filter p vs))"
  by (induction vs arbitrary: a) (auto simp: mult.assoc)

lemma getAvailabilityOfSection_placed:
  "getAvailabilityOfSection d k i xs = placedAvailability d (xs k) i"
  by (simp add: getAvailabilityOfSection_def placedAvailability_def fold_failure_prob)

lemma binary_placed:
  assumes "x = 0 \<or> x = (1 :: real)"
  shows "(1 - EPS \<le> x) = (x = 1)"
  using assms by (auto simp: EPS_def)

lemma placedAvailability_binary:
  assumes "\<And>v. v \<in> set (graphNodes d) \<Longrightarrow> xk i v = 0 \<or> xk i v = 1"
  shows "placedAvailability d xk i
           = 1 - prod_list (map (\<lambda>v. 1 - nodeAvail d v) (filter (\<lambda>v. xk i v = 1) (graphNodes d)))"
proof -
  have "filter (\<lambda>v. xk i v \<ge> 1 - EPS) (graphNodes d) = filter (\<lambda>v. xk i v = 1) (graphNodes d)"
    by (rule filter_cong) (use assms binary_placed in auto)
  then show ?thesis
    by (simp add: placedAvailability_def)
qed

lemma placedAvailability_cong:
  assumes "\<And>v. v \<in> set (graphNodes d) \<Longrightarrow> xk i v = yk i v"
  shows "placedAvailability d xk i = placedAvailability d yk i"
proof -
  have "filter (\<lambda>v. xk i v \<ge> 1 - EPS) (graphNodes d) = filter (\<lambda>v. yk i v \<ge> 1 - EPS) (graphNodes d)"
    by (rule filter_cong) (use assms in auto)
  then show ?thesis
    by (simp add: placedAvailability_def)
qed

text \<open>The loop that selects the sections.\<close>

lemma selectSections_spec:
  assumes "selectSections req es c0 n0 = (c, m)"
  shows "\<exists>j \<le> length es. m = n0 + j
           \<and> c = c0 * prod_list (map ma_availability (take j es))
           \<and> (\<forall>l < j. req \<le> c0 * prod_list (map ma_availability (take l es)))
           \<and> (req \<le> c \<longrightarrow> j = length es)"
  using assms
proof (induction es arbitrary: c0 n0)
  case Nil
  then show ?case by simp
next
  case (Cons e es)
  show ?case
  proof (cases "req \<le> c0")
    case False
    with Cons.prems have "c = c0" "m = n0" by simp_all
    with False show ?thesis
      by (intro exI [of _ 0]) simp
  next
    case True
    with Cons.prems have "selectSections req es (c0 * ma_availability e) (n0 + 1) = (c, m)"
      by simp
    from Cons.IH [OF this] obtain j where j: "j \<le> length es" "m = n0 + 1 + j"
      "c = c0 * ma_availability e * prod_list (map ma_availability (take j es))"
      "\<forall>l < j. req \<le> c0 * ma_availability e * prod_list (map ma_availability (take l es))"
      "req \<le> c \<longrightarrow> j = length es"
      by blast
    have step: "\<And>l. c0 * prod_list (map ma_availability (take (Suc l) (e # es)))
                    = c0 * ma_availability e * prod_list (map ma_availability (take l es))"
      by (simp only: take_Suc_Cons list.map prod_list.Cons mult.assoc)
    have low: "\<forall>l < Suc j. req \<le> c0 * prod_list (map ma_availability (take l (e # es)))"
    proof (intro allI impI)
      fix l
      assume l: "l < Suc j"
      show "req \<le> c0 * prod_list (map ma_availability (take l (e # es)))"
      proof (cases l)
        case 0
        with True show ?thesis by simp
      next
        case (Suc l')
        with l have "l' < j" by simp
        with j(4) have "req \<le> c0 * ma_availability e * prod_list (map ma_availability (take l' es))"
          by blast
        then show ?thesis
          unfolding Suc step .
      qed
    qed
    have c: "c = c0 * prod_list (map ma_availability (take (Suc j) (e # es)))"
      unfolding step by (rule j(3))
    have len: "Suc j \<le> length (e # es)" "m = n0 + Suc j"
      "req \<le> c \<longrightarrow> Suc j = length (e # es)"
      using j(1,2,5) by simp_all
    from len c low show ?thesis
      by blast
  qed
qed

lemma selectSections_start:
  assumes "selectSections req sa 1 0 = (c, m)"
  shows "m \<le> length sa
         \<and> c = prod_list (map ma_availability (take m sa))
         \<and> (\<forall>l < m. req \<le> prod_list (map ma_availability (take l sa)))
         \<and> (req \<le> c \<longrightarrow> m = length sa)"
proof -
  from selectSections_spec [OF assms]
  have "\<exists>j \<le> length sa. m = j
           \<and> c = prod_list (map ma_availability (take j sa))
           \<and> (\<forall>l < j. req \<le> prod_list (map ma_availability (take l sa)))
           \<and> (req \<le> c \<longrightarrow> j = length sa)"
    by (simp only: add_0 mult_1)
  then obtain j where "j \<le> length sa" and m: "m = j"
    and "c = prod_list (map ma_availability (take j sa))"
    and "\<forall>l < j. req \<le> prod_list (map ma_availability (take l sa))"
    and "req \<le> c \<longrightarrow> j = length sa"
    by (elim exE conjE)
  then show ?thesis
    unfolding m by (intro conjI)
qed

text \<open>What is known of the sorted vector.\<close>

lemma sorted_sections:
  assumes "sorts_by_availability srt"
  shows "mset (map ma_section (srt (getAvailabilitiesOfSections d k xs)))
           = mset [0 ..< getNbVNFs (getDemand d k)]"
    and "\<And>e. e \<in> set (srt (getAvailabilitiesOfSections d k xs)) \<Longrightarrow>
           ma_availability e = placedAvailability d (xs k) (ma_section e)"
    and "prod_list (map ma_availability (srt (getAvailabilitiesOfSections d k xs)))
           = storedChainAvailability d xs k"
proof -
  let ?orig = "getAvailabilitiesOfSections d k xs"
  have m: "mset (srt ?orig) = mset ?orig"
    using assms by (simp add: sorts_by_availability_def)
  have "mset (map ma_section (srt ?orig)) = image_mset ma_section (mset (srt ?orig))"
    by simp
  also have "\<dots> = mset (map ma_section ?orig)"
    by (simp add: m)
  also have "map ma_section ?orig = [0 ..< getNbVNFs (getDemand d k)]"
    by (simp add: getAvailabilitiesOfSections_def comp_def)
  finally show "mset (map ma_section (srt ?orig)) = mset [0 ..< getNbVNFs (getDemand d k)]" .
  show "\<And>e. e \<in> set (srt ?orig) \<Longrightarrow>
           ma_availability e = placedAvailability d (xs k) (ma_section e)"
  proof -
    fix e
    assume "e \<in> set (srt ?orig)"
    then have "e \<in> set ?orig"
      using m by (metis set_mset_mset)
    then show "ma_availability e = placedAvailability d (xs k) (ma_section e)"
      by (auto simp: getAvailabilitiesOfSections_def getAvailabilityOfSection_placed)
  qed
  have i: "mset (map ma_availability (srt ?orig)) = mset (map ma_availability ?orig)"
    by (simp add: m)
  have "prod_list (map ma_availability (srt ?orig))
          = prod_mset (mset (map ma_availability (srt ?orig)))"
    by (rule prod_mset_prod_list [symmetric])
  also have "\<dots> = prod_mset (mset (map ma_availability ?orig))"
    unfolding i ..
  also have "\<dots> = prod_list (map ma_availability ?orig)"
    by (rule prod_mset_prod_list)
  also have "\<dots> = storedChainAvailability d xs k"
    by (simp add: getAvailabilitiesOfSections_def storedChainAvailability_def comp_def)
  finally show "prod_list (map ma_availability (srt ?orig)) = storedChainAvailability d xs k" .
qed

section \<open>Lazy constraints: lifting\<close>

lemma fold_times:
  "fold (\<lambda>j fa. fa * h j) js (a :: real) = a * prod_list (map h js)"
  by (induction js arbitrary: a) (simp_all add: mult.assoc)

lemma take_as_map: "m \<le> length xs \<Longrightarrow> take m xs = map ((!) xs) [0 ..< m]"
proof -
  assume m: "m \<le> length xs"
  have "take m xs = take m (map ((!) xs) [0 ..< length xs])"
    by (simp add: map_nth)
  also have "\<dots> = map ((!) xs) (take m [0 ..< length xs])"
    by (rule take_map)
  also have "take m [0 ..< length xs] = [0 ..< m]"
    using m by (simp add: min_def)
  finally show ?thesis .
qed

lemma future_availability:
  assumes "m \<le> length sa" and "s < m"
  shows "fold (\<lambda>j fa. if s = j then fa * fut else fa * ma_availability (sa ! j)) [0 ..< m] 1
           = prod_list (map ma_availability (take m (sa[s := (sa ! s)\<lparr>ma_availability := fut\<rparr>])))"
proof -
  let ?sa = "sa[s := (sa ! s)\<lparr>ma_availability := fut\<rparr>]"
  have l: "m \<le> length ?sa"
    using assms(1) by simp
  have "(\<lambda>j fa. if s = j then fa * fut else fa * ma_availability (sa ! j))
          = (\<lambda>j fa. fa * (if s = j then fut else ma_availability (sa ! j)))"
    by (intro ext) simp
  then have "fold (\<lambda>j fa. if s = j then fa * fut else fa * ma_availability (sa ! j)) [0 ..< m] 1
          = prod_list (map (\<lambda>j. if s = j then fut else ma_availability (sa ! j)) [0 ..< m])"
    by (simp add: fold_times)
  also have "map (\<lambda>j. if s = j then fut else ma_availability (sa ! j)) [0 ..< m]
          = map ma_availability (map ((!) ?sa) [0 ..< m])"
    using assms by (auto simp: nth_list_update)
  also have "map ((!) ?sa) [0 ..< m] = take m ?sa"
    by (rule take_as_map [OF l, symmetric])
  finally show ?thesis .
qed

lemma prod_filter_insert:
  assumes "distinct vs" and "v \<in> set vs" and "\<not> p v"
  shows "prod_list (map f (filter (\<lambda>u. u = v \<or> p u) vs))
           = (f v :: real) * prod_list (map f (filter p vs))"
  using assms
proof (induction vs)
  case Nil
  then show ?case by simp
next
  case (Cons u vs)
  show ?case
  proof (cases "u = v")
    case True
    with Cons.prems have "v \<notin> set vs" by simp
    then have "filter (\<lambda>u. u = v \<or> p u) vs = filter p vs"
      by (intro filter_cong) auto
    with True Cons.prems(3) show ?thesis by simp
  next
    case False
    with Cons.prems have "distinct vs" "v \<in> set vs" by simp_all
    from Cons.IH [OF this Cons.prems(3)] False show ?thesis
      by (simp add: mult.left_commute)
  qed
qed

lemma placedAvailability_mark:
  assumes "distinct (graphNodes d)" and "v \<in> set (graphNodes d)" and "xs i v < 1 - EPS"
  shows "placedAvailability d (xs(i := (xs i)(v := 1))) i
           = 1 - (1 - placedAvailability d xs i) * (1 - nodeAvail d v)"
proof -
  have "filter (\<lambda>u. (xs(i := (xs i)(v := 1))) i u \<ge> 1 - EPS) (graphNodes d)
          = filter (\<lambda>u. u = v \<or> xs i u \<ge> 1 - EPS) (graphNodes d)"
    by (intro filter_cong) (auto simp: EPS_def)
  moreover have "\<not> (xs i v \<ge> 1 - EPS)"
    using assms(3) by simp
  ultimately show ?thesis
    unfolding placedAvailability_def
    using prod_filter_insert [OF assms(1,2), of "\<lambda>u. xs i u \<ge> 1 - EPS" "\<lambda>v. 1 - nodeAvail d v"]
    by (simp add: mult.commute)
qed

lemma placedAvailability_other:
  "j \<noteq> i \<Longrightarrow> placedAvailability d (xs(i := r)) j = placedAvailability d xs j"
  by (simp add: placedAvailability_def)

lemma liftNode_inv:
  assumes "distinct (graphNodes d)" and "distinct (map ma_section sa0)"
    and "s < m" and "m \<le> length sa0" and "v \<in> set (graphNodes d)"
    and "liftInv d req m sa0 st"
  shows "liftInv d req m sa0 (liftNode d req m s v st)"
proof -
  obtain xs sa where st: "st = (xs, sa)" by (cases st)
  let ?i = "ma_section (sa ! s)"
  let ?fut = "1 - (1 - ma_availability (sa ! s)) * (1 - nodeAvail d v)"
  let ?sa = "sa[s := (sa ! s)\<lparr>ma_availability := ?fut\<rparr>]"
  let ?xs = "xs(?i := (xs ?i)(v := 1))"
  from assms(6) have sec: "map ma_section sa = map ma_section sa0"
    and av: "\<And>t. t < length sa \<Longrightarrow> ma_availability (sa ! t) = placedAvailability d xs (ma_section (sa ! t))"
    and below: "prod_list (map ma_availability (take m sa)) < req"
    by (simp_all add: liftInv_def st)
  have len: "length sa = length sa0"
    using sec by (metis length_map)
  have m: "m \<le> length sa" and s: "s < length sa"
    using assms(3,4) len by simp_all
  have dist: "distinct (map ma_section sa)"
    using assms(2) sec by simp
  show ?thesis
  proof (cases "xs ?i v < 1 - EPS
      \<and> fold (\<lambda>j fa. if s = j then fa * ?fut else fa * ma_availability (sa ! j)) [0 ..< m] 1 < req")
    case False
    then have "liftNode d req m s v st = st"
      by (auto simp: liftNode_def st Let_def)
    with assms(6) show ?thesis by simp
  next
    case True
    then have r: "liftNode d req m s v st = (?xs, ?sa)"
      by (simp add: liftNode_def st Let_def)
    have sec': "map ma_section ?sa = map ma_section sa0"
      unfolding sec [symmetric] by (simp add: map_update list_update_same_conv s)
    have below': "prod_list (map ma_availability (take m ?sa)) < req"
      using True unfolding future_availability [OF m assms(3)] by simp
    have av': "\<forall>t < length ?sa. ma_availability (?sa ! t) = placedAvailability d ?xs (ma_section (?sa ! t))"
    proof (intro allI impI)
      fix t
      assume t: "t < length ?sa"
      then have t': "t < length sa" by simp
      show "ma_availability (?sa ! t) = placedAvailability d ?xs (ma_section (?sa ! t))"
      proof (cases "t = s")
        case True
        have "placedAvailability d ?xs ?i = 1 - (1 - placedAvailability d xs ?i) * (1 - nodeAvail d v)"
          by (rule placedAvailability_mark [OF assms(1,5)]) (use \<open>xs ?i v < 1 - EPS \<and> _\<close> in simp)
        then show ?thesis
          using True s av [OF s] by simp
      next
        case False
        have "ma_section (sa ! t) \<noteq> ma_section (sa ! s)"
          using dist False t' s by (simp add: distinct_conv_nth)
        then show ?thesis
          using False t' av [OF t'] by (simp add: placedAvailability_other)
      qed
    qed
    show ?thesis
      unfolding r liftInv_def using sec' av' below' by simp
  qed
qed

lemma lift_inv:
  assumes "distinct (graphNodes d)" and "distinct (map ma_section sa0)"
    and "m \<le> length sa0" and "liftInv d req m sa0 (xs, sa0)"
  shows "liftInv d req m sa0 (lift d xs req sa0 m)"
  unfolding lift_def
proof (rule fold_invariant_set)
  show "liftInv d req m sa0 (xs, sa0)" by (rule assms(4))
next
  fix s st
  assume s: "s \<in> set [0 ..< m]" and i: "liftInv d req m sa0 st"
  show "liftInv d req m sa0 (fold (liftNode d req m s) (graphNodes d) st)"
  proof (rule fold_invariant_set)
    show "liftInv d req m sa0 st" by (rule i)
  next
    fix v st1
    assume "v \<in> set (graphNodes d)" and "liftInv d req m sa0 st1"
    with s show "liftInv d req m sa0 (liftNode d req m s v st1)"
      by (intro liftNode_inv [OF assms(1,2) _ assms(3)]) simp_all
  qed
qed

section \<open>Lazy constraints: the nogood\<close>

lemma prod_list_unit:
  assumes "\<And>x. x \<in> set xs \<Longrightarrow> 0 \<le> f x \<and> f x \<le> (1 :: real)"
  shows "0 \<le> prod_list (map f xs) \<and> prod_list (map f xs) \<le> 1"
  using assms
proof (induction xs)
  case Nil
  show ?case by simp
next
  case (Cons x xs)
  then have p: "0 \<le> prod_list (map f xs)" "prod_list (map f xs) \<le> 1"
    and x: "0 \<le> f x" "f x \<le> 1"
    by simp_all
  have "f x * prod_list (map f xs) \<le> 1 * 1"
    by (rule mult_mono) (use p x in simp_all)
  with p x show ?case by simp
qed

lemma prod_list_filter_mono:
  assumes "\<And>v. v \<in> set vs \<Longrightarrow> 0 \<le> f v \<and> f v \<le> (1 :: real)"
    and "\<And>v. v \<in> set vs \<Longrightarrow> p v \<Longrightarrow> q v"
  shows "prod_list (map f (filter q vs)) \<le> prod_list (map f (filter p vs))"
  using assms
proof (induction vs)
  case Nil
  show ?case by simp
next
  case (Cons v vs)
  have ih: "prod_list (map f (filter q vs)) \<le> prod_list (map f (filter p vs))"
    by (rule Cons.IH) (use Cons.prems in simp_all)
  have fv: "0 \<le> f v" "f v \<le> 1"
    using Cons.prems(1) by simp_all
  have nq: "0 \<le> prod_list (map f (filter q vs))"
    using prod_list_unit [of "filter q vs" f] Cons.prems(1) by simp
  have np: "0 \<le> prod_list (map f (filter p vs))"
    using prod_list_unit [of "filter p vs" f] Cons.prems(1) by simp
  show ?case
  proof (cases "p v")
    case True
    with Cons.prems(2) have "q v" by simp
    with True ih fv show ?thesis
      by (simp add: mult_left_mono)
  next
    case False
    show ?thesis
    proof (cases "q v")
      case True
      have "f v * prod_list (map f (filter q vs)) \<le> 1 * prod_list (map f (filter q vs))"
        by (rule mult_right_mono) (use fv nq in simp_all)
      with True False ih show ?thesis by simp
    next
      case False
      with \<open>\<not> p v\<close> ih show ?thesis by simp
    qed
  qed
qed

lemma prod_list_mono_unit:
  assumes "\<And>x. x \<in> set xs \<Longrightarrow> 0 \<le> f x \<and> f x \<le> (g x :: real)"
  shows "prod_list (map f xs) \<le> prod_list (map g xs)"
  using assms
proof (induction xs)
  case Nil
  show ?case by simp
next
  case (Cons x xs)
  have ih: "prod_list (map f xs) \<le> prod_list (map g xs)"
    by (rule Cons.IH) (use Cons.prems in simp)
  have nf: "0 \<le> prod_list (map f xs)"
    by (rule prod_list_nonneg) (use Cons.prems in auto)
  have fx: "0 \<le> f x" "f x \<le> g x"
    using Cons.prems [of x] by simp_all
  then have gx: "0 \<le> g x" by simp
  have "f x * prod_list (map f xs) \<le> g x * prod_list (map g xs)"
    using fx(2) ih gx nf by (rule mult_mono)
  then show ?case by simp
qed

lemma prod_list_sublist:
  assumes "distinct js" and "distinct is" and "set js \<subseteq> set is"
    and "\<And>i. i \<in> set is \<Longrightarrow> 0 \<le> g i \<and> g i \<le> (1 :: real)"
  shows "prod_list (map g is) \<le> prod_list (map g js)"
proof -
  have "prod_list (map g is) = prod g (set is)"
    by (rule prod.distinct_set_conv_list [OF assms(2), symmetric])
  also have "set is = set js \<union> (set is - set js)"
    using assms(3) by auto
  also have "prod g (set js \<union> (set is - set js)) = prod g (set js) * prod g (set is - set js)"
    by (rule prod.union_disjoint) auto
  also have "\<dots> \<le> prod g (set js) * 1"
  proof (rule mult_left_mono)
    show "prod g (set is - set js) \<le> 1"
      by (rule prod_le_1) (use assms(4) in auto)
    show "0 \<le> prod g (set js)"
      by (rule prod_nonneg) (use assms(3,4) in auto)
  qed
  also have "prod g (set js) * 1 = prod_list (map g js)"
    by (simp add: prod.distinct_set_conv_list [OF assms(1)])
  finally show ?thesis .
qed

lemma placedAvailability_unit:
  assumes "availabilitiesInRange d"
  shows "0 \<le> placedAvailability d xk i \<and> placedAvailability d xk i \<le> 1"
proof -
  have "0 \<le> prod_list (map (\<lambda>v. 1 - nodeAvail d v) (filter (\<lambda>v. xk i v \<ge> 1 - EPS) (graphNodes d)))
        \<and> prod_list (map (\<lambda>v. 1 - nodeAvail d v) (filter (\<lambda>v. xk i v \<ge> 1 - EPS) (graphNodes d))) \<le> 1"
    by (rule prod_list_unit) (use assms in \<open>auto simp: availabilitiesInRange_def\<close>)
  then show ?thesis
    by (simp add: placedAvailability_def)
qed

lemma sectionAvailabilityOf_unit:
  assumes "availabilitiesInRange d"
  shows "0 \<le> sectionAvailabilityOf d x k i \<and> sectionAvailabilityOf d x k i \<le> 1"
proof -
  have "0 \<le> prod_list (map (\<lambda>v. 1 - nodeAvail d v) (filter (\<lambda>v. x k i v = 1) (graphNodes d)))
        \<and> prod_list (map (\<lambda>v. 1 - nodeAvail d v) (filter (\<lambda>v. x k i v = 1) (graphNodes d))) \<le> 1"
    by (rule prod_list_unit) (use assms in \<open>auto simp: availabilitiesInRange_def\<close>)
  then show ?thesis
    by (simp add: sectionAvailabilityOf_def)
qed

lemma sectionAvailabilityOf_le_placed:
  assumes "availabilitiesInRange d"
    and "\<And>v. v \<in> set (graphNodes d) \<Longrightarrow> x k i v = 1 \<Longrightarrow> xl i v \<ge> 1 - EPS"
  shows "sectionAvailabilityOf d x k i \<le> placedAvailability d xl i"
proof -
  have "prod_list (map (\<lambda>v. 1 - nodeAvail d v) (filter (\<lambda>v. xl i v \<ge> 1 - EPS) (graphNodes d)))
        \<le> prod_list (map (\<lambda>v. 1 - nodeAvail d v) (filter (\<lambda>v. x k i v = 1) (graphNodes d)))"
    by (rule prod_list_filter_mono)
       (use assms in \<open>auto simp: availabilitiesInRange_def\<close>)
  then show ?thesis
    by (simp add: sectionAvailabilityOf_def placedAvailability_def)
qed

lemma member_le_sum_list_real:
  assumes "\<And>y. y \<in> set ys \<Longrightarrow> 0 \<le> (y :: real)" and "x \<in> set ys"
  shows "x \<le> sum_list ys"
  using assms
proof (induction ys)
  case Nil
  then show ?case by simp
next
  case (Cons y ys)
  have n: "0 \<le> sum_list ys"
    by (rule sum_list_nonneg) (use Cons.prems(1) in simp)
  show ?case
  proof (cases "x = y")
    case True
    with n show ?thesis by simp
  next
    case False
    with Cons.prems have "x \<in> set ys" by simp
    then have "x \<le> sum_list ys"
      by (rule Cons.IH [rotated]) (use Cons.prems(1) in simp)
    moreover have "0 \<le> y" using Cons.prems(1) by simp
    ultimately show ?thesis by simp
  qed
qed

text \<open>The state that \<open>lift\<close> leaves, on the selected sections.\<close>

lemma lifted_prefix:
  assumes "liftInv d req m sa0 (xl, sal)" and "m \<le> length sa0"
  shows "map ma_availability (take m sal)
           = map (placedAvailability d xl) (take m (map ma_section sa0))"
proof -
  from assms(1) have sec: "map ma_section sal = map ma_section sa0"
    and av: "\<And>t. t < length sal \<Longrightarrow>
               ma_availability (sal ! t) = placedAvailability d xl (ma_section (sal ! t))"
    by (simp_all add: liftInv_def)
  have "\<And>e. e \<in> set (take m sal) \<Longrightarrow> ma_availability e = placedAvailability d xl (ma_section e)"
  proof -
    fix e
    assume "e \<in> set (take m sal)"
    then have "e \<in> set sal" by (rule in_set_takeD)
    then obtain t where "t < length sal" "sal ! t = e"
      by (auto simp: in_set_conv_nth)
    with av show "ma_availability e = placedAvailability d xl (ma_section e)" by blast
  qed
  then have "map ma_availability (take m sal)
               = map (\<lambda>e. placedAvailability d xl (ma_section e)) (take m sal)"
    by (intro map_cong) simp_all
  also have "\<dots> = map (placedAvailability d xl) (take m (map ma_section sal))"
    by (simp add: take_map comp_def)
  finally show ?thesis
    unfolding sec .
qed

text \<open>
  A binary assignment that meets the requirement of the demand satisfies the nogood built
  from a matrix whose selected sections are below the requirement.
\<close>

lemma nogood_sound:
  assumes "availabilitiesInRange d" and "binaryPoint x"
    and "distinct secs" and "set secs \<subseteq> {..< getNbVNFs (getDemand d k)}"
    and "prod_list (map (placedAvailability d xl) secs) < req"
    and "req \<le> chainAvailabilityOf d x k"
  shows "1 \<le> evalExpr (pointOf x) (getExpr (nogood d k xl secs))"
proof (rule ccontr)
  assume "\<not> 1 \<le> evalExpr (pointOf x) (getExpr (nogood d k xl secs))"
  then have less: "evalExpr (pointOf x) (getExpr (nogood d k xl secs)) < 1"
    by simp
  let ?terms = "map (\<lambda>(c, y). c * pointOf x y) (getExpr (nogood d k xl secs))"
  have bin: "\<And>k i v. x k i v = 0 \<or> x k i v = 1"
    using assms(2) by (simp add: binaryPoint_def)
  have form: "\<And>c z. (c, z) \<in> set (getExpr (nogood d k xl secs)) \<Longrightarrow> \<exists>i v. c = 1 \<and> z = X k i v"
    by (auto simp: nogood_def)
  have nonneg: "\<And>y. y \<in> set ?terms \<Longrightarrow> 0 \<le> y"
  proof -
    fix y
    assume "y \<in> set ?terms"
    then obtain c z where m: "(c, z) \<in> set (getExpr (nogood d k xl secs))"
      and y: "y = c * pointOf x z"
      by auto
    from form [OF m] obtain i v where "c = 1" "z = X k i v" by blast
    with y bin [of k i v] show "0 \<le> y"
      by (auto simp: pointOf_def)
  qed
  have none: "\<And>i v. i \<in> set secs \<Longrightarrow> v \<in> set (graphNodes d) \<Longrightarrow> xl i v < 1 - EPS \<Longrightarrow>
                x k i v \<noteq> 1"
  proof
    fix i v
    assume i: "i \<in> set secs" and v: "v \<in> set (graphNodes d)" and l: "xl i v < 1 - EPS"
      and one: "x k i v = 1"
    have "(1, X k i v) \<in> set (getExpr (nogood d k xl secs))"
      using i v l by (auto simp: nogood_def)
    then have "(\<lambda>(c, y). c * pointOf x y) (1, X k i v) \<in> set ?terms"
      by (simp only: set_map) (rule imageI)
    then have "1 \<in> set ?terms"
      using one by (simp add: pointOf_def)
    from member_le_sum_list_real [OF nonneg this] have "1 \<le> sum_list ?terms" .
    with less show False
      by (simp add: evalExpr_def)
  qed
  have le: "\<And>i. i \<in> set secs \<Longrightarrow> sectionAvailabilityOf d x k i \<le> placedAvailability d xl i"
  proof -
    fix i
    assume i: "i \<in> set secs"
    show "sectionAvailabilityOf d x k i \<le> placedAvailability d xl i"
    proof (rule sectionAvailabilityOf_le_placed [OF assms(1)])
      fix v
      assume "v \<in> set (graphNodes d)" and "x k i v = 1"
      with none [OF i] show "1 - EPS \<le> xl i v"
        by fastforce
    qed
  qed
  have "chainAvailabilityOf d x k \<le> prod_list (map (sectionAvailabilityOf d x k) secs)"
    unfolding chainAvailabilityOf_def
    by (rule prod_list_sublist [OF assms(3)])
       (use assms(4) sectionAvailabilityOf_unit [OF assms(1)] in auto)
  also have "\<dots> \<le> prod_list (map (placedAvailability d xl) secs)"
    by (rule prod_list_mono_unit) (use le sectionAvailabilityOf_unit [OF assms(1)] in auto)
  also have "\<dots> < req"
    by (rule assms(5))
  finally show False
    using assms(6) by simp
qed

lemma stored_chain_below:
  assumes "availabilitiesInRange d"
    and "distinct secs" and "set secs \<subseteq> {..< getNbVNFs (getDemand d k)}"
    and "prod_list (map (placedAvailability d (xs k)) secs) < req"
  shows "storedChainAvailability d xs k < req"
proof -
  have "storedChainAvailability d xs k
          = prod_list (map (placedAvailability d (xs k)) [0 ..< getNbVNFs (getDemand d k)])"
    by (simp add: storedChainAvailability_def getAvailabilityOfSection_placed)
  also have "\<dots> \<le> prod_list (map (placedAvailability d (xs k)) secs)"
    by (rule prod_list_sublist [OF assms(2)])
       (use assms(3) placedAvailability_unit [OF assms(1)] in auto)
  finally show ?thesis
    using assms(4) by simp
qed

section \<open>Lazy constraints: one demand, and all of them\<close>

text \<open>The snapshot that \<open>getIntegerSolution\<close> takes.\<close>

lemma fill_nodes:
  "xSol (fold (\<lambda>v st. set_xSol k i v (g v) st) vs st) k' i' v'
     = (if k' = k \<and> i' = i \<and> v' \<in> set vs then g v' else xSol st k' i' v')"
  by (induction vs arbitrary: st rule: rev_induct) (auto simp: set_xSol_def)

lemma fill_sections:
  "xSol (fold (\<lambda>i st. fold (\<lambda>v st. set_xSol k i v (g i v) st) vs st) js st) k' i' v'
     = (if k' = k \<and> i' \<in> set js \<and> v' \<in> set vs then g i' v' else xSol st k' i' v')"
  by (induction js arbitrary: st rule: rev_induct) (auto simp: fill_nodes)

lemma fill_demands:
  "xSol (fold (\<lambda>k st. fold (\<lambda>i st. fold (\<lambda>v st. set_xSol k i v (g k i v) st) vs st) (js k) st)
           ks st) k' i' v'
     = (if k' \<in> set ks \<and> i' \<in> set (js k') \<and> v' \<in> set vs then g k' i' v' else xSol st k' i' v')"
  by (induction ks arbitrary: st rule: rev_induct) (auto simp: fill_sections)

lemma getIntegerSolution_snapshot:
  assumes "getId ctx = Candidate" and "isCandidatePoint ctx"
  shows "\<exists>s0. getIntegerSolution d ctx st = Inr s0
           \<and> rejections s0 = rejections st
           \<and> (\<forall>k < getNbDemands d. \<forall>i < getNbVNFs (getDemand d k). \<forall>v \<in> set (graphNodes d).
                 xSol s0 k i v = candidate ctx k i v)"
proof -
  let ?s0 = "fold (\<lambda>k st.
                  fold (\<lambda>i st.
                    fold (\<lambda>v st. set_xSol k i v (getCandidatePoint ctx (X k i v)) st)
                      (graphNodes d) st)
                    [0 ..< getNbVNFs (getDemand d k)] st)
                  [0 ..< getNbDemands d] st"
  have a: "getIntegerSolution d ctx st = Inr ?s0"
    using assms by (simp add: getIntegerSolution_def)
  have r: "\<And>k i v a s. rejections (set_xSol k i v a s) = rejections s"
    by (simp add: set_xSol_def)
  have b: "rejections ?s0 = rejections st"
    by (simp add: fold_keeps r)
  have c: "\<forall>k < getNbDemands d. \<forall>i < getNbVNFs (getDemand d k). \<forall>v \<in> set (graphNodes d).
                 xSol ?s0 k i v = candidate ctx k i v"
    by (simp add: fill_demands [where g = "\<lambda>k i v. getCandidatePoint ctx (X k i v)"
          and js = "\<lambda>k. [0 ..< getNbVNFs (getDemand d k)]"] candidate_def)
  from a b c show ?thesis by blast
qed

text \<open>\<open>lift\<close> keeps the sections of the vector, and reads the matrix on them only.\<close>

lemma liftNode_sections:
  "map ma_section (snd (liftNode d req m s v st)) = map ma_section (snd st)"
proof (cases "s < length (snd st)")
  case True
  then show ?thesis
    by (cases st) (auto simp: liftNode_def Let_def map_update list_update_same_conv)
next
  case False
  then show ?thesis
    by (cases st) (auto simp: liftNode_def Let_def list_update_beyond)
qed

lemma lift_sections:
  "map ma_section (snd (lift d xs req sa m)) = map ma_section sa"
proof -
  have "map ma_section (snd (lift d xs req sa m)) = map ma_section (snd (xs, sa))"
    unfolding lift_def
    by (intro fold_keeps [where f = "\<lambda>st. map ma_section (snd st)"]) (rule liftNode_sections)
  then show ?thesis by simp
qed

lemma fold_related:
  assumes "\<And>x a b. x \<in> set xs \<Longrightarrow> R a b \<Longrightarrow> R (f x a) (g x b)" and "R a b"
  shows "R (fold f xs a) (fold g xs b)"
  using assms by (induction xs arbitrary: a b) auto

lemma lift_cong:
  assumes "m \<le> length sa"
    and "\<And>i v. i \<in> set (map ma_section sa) \<Longrightarrow> v \<in> set (graphNodes d) \<Longrightarrow> xs i v = ys i v"
  shows "snd (lift d xs req sa m) = snd (lift d ys req sa m)
         \<and> (\<forall>i \<in> set (map ma_section sa). \<forall>v \<in> set (graphNodes d).
               fst (lift d xs req sa m) i v = fst (lift d ys req sa m) i v)"
proof -
  let ?R = "\<lambda>(a :: (nat \<Rightarrow> nat \<Rightarrow> real) \<times> MapAvailability list) b.
              snd a = snd b \<and> map ma_section (snd a) = map ma_section sa
              \<and> (\<forall>i \<in> set (map ma_section sa). \<forall>v \<in> set (graphNodes d). fst a i v = fst b i v)"
  have step: "\<And>s v a b. s \<in> set [0 ..< m] \<Longrightarrow> v \<in> set (graphNodes d) \<Longrightarrow> ?R a b \<Longrightarrow>
                ?R (liftNode d req m s v a) (liftNode d req m s v b)"
  proof -
    fix s v and a b :: "(nat \<Rightarrow> nat \<Rightarrow> real) \<times> MapAvailability list"
    assume s: "s \<in> set [0 ..< m]" and v: "v \<in> set (graphNodes d)" and r: "?R a b"
    obtain xa sa1 where a: "a = (xa, sa1)" by (cases a)
    obtain xb sb1 where b: "b = (xb, sb1)" by (cases b)
    from r a b have e: "sb1 = sa1" and sec: "map ma_section sa1 = map ma_section sa"
      and agree: "\<And>i u. i \<in> set (map ma_section sa) \<Longrightarrow> u \<in> set (graphNodes d) \<Longrightarrow> xa i u = xb i u"
      by auto
    have len: "length sa1 = length sa"
      using sec by (metis length_map)
    have sl: "s < length sa1"
      using s assms(1) len by simp
    have "ma_section (sa1 ! s) = map ma_section sa1 ! s"
      using sl by simp
    then have i: "ma_section (sa1 ! s) \<in> set (map ma_section sa)"
      unfolding sec [symmetric] using sl by (metis length_map nth_mem)
    have same: "xa (ma_section (sa1 ! s)) v = xb (ma_section (sa1 ! s)) v"
      by (rule agree [OF i v])
    have sec2: "map ma_section (snd (liftNode d req m s v a)) = map ma_section sa"
      using liftNode_sections [of d req m s v a] sec a by simp
    have row: "\<And>u. u \<in> set (graphNodes d) \<Longrightarrow>
                 xa (ma_section (sa1 ! s)) u = xb (ma_section (sa1 ! s)) u"
      by (rule agree [OF i])
    show "?R (liftNode d req m s v a) (liftNode d req m s v b)"
      using sec2 agree row
      by (auto simp: liftNode_def Let_def a b e same)
  qed
  have "?R (lift d xs req sa m) (lift d ys req sa m)"
    unfolding lift_def
  proof (rule fold_related)
    show "?R (xs, sa) (ys, sa)"
      using assms(2) by simp
  next
    fix s and a b :: "(nat \<Rightarrow> nat \<Rightarrow> real) \<times> MapAvailability list"
    assume s: "s \<in> set [0 ..< m]" and r: "?R a b"
    show "?R (fold (liftNode d req m s) (graphNodes d) a) (fold (liftNode d req m s) (graphNodes d) b)"
      by (rule fold_related [where R = ?R]) (use step [OF s] r in blast)+
  qed
  then show ?thesis by blast
qed

lemma nogood_cong:
  assumes "\<And>i v. i \<in> set secs \<Longrightarrow> v \<in> set (graphNodes d) \<Longrightarrow> xl i v = yl i v"
  shows "nogood d k xl secs = nogood d k yl secs"
proof -
  have "map (\<lambda>i. map (\<lambda>v. (1 :: real, X k i v)) (filter (\<lambda>v. xl i v < 1 - EPS) (graphNodes d))) secs
        = map (\<lambda>i. map (\<lambda>v. (1, X k i v)) (filter (\<lambda>v. yl i v < 1 - EPS) (graphNodes d))) secs"
  proof (rule map_cong [OF refl])
    fix i
    assume i: "i \<in> set secs"
    have "filter (\<lambda>v. xl i v < 1 - EPS) (graphNodes d) = filter (\<lambda>v. yl i v < 1 - EPS) (graphNodes d)"
      by (rule filter_cong) (use assms [OF i] in auto)
    then show "map (\<lambda>v. (1 :: real, X k i v)) (filter (\<lambda>v. xl i v < 1 - EPS) (graphNodes d))
               = map (\<lambda>v. (1, X k i v)) (filter (\<lambda>v. yl i v < 1 - EPS) (graphNodes d))"
      by simp
  qed
  then show ?thesis
    unfolding nogood_def by (rule arg_cong [where f = "\<lambda>e. \<lparr>getLB = 1, getExpr = concat e,
      getUB = None, getName = Unnamed\<rparr>"])
qed

text \<open>What the body of the loop over the demands does.\<close>

lemma nogoodExpr_nogood:
  assumes "m \<le> length sal"
  shows "nogoodExpr d k xl sal m = getExpr (nogood d k xl (take m (map ma_section sal)))"
proof -
  have "take m (map ma_section sal) = map (\<lambda>s. ma_section (sal ! s)) [0 ..< m]"
    using take_as_map [OF assms] by (simp add: take_map comp_def)
  then show ?thesis
    by (simp add: nogoodExpr_def nogood_def comp_def Let_def)
qed

lemma addLazyConstraints_k_eq:
  assumes "selectSections (getAvailability (getDemand d k))
             (std_sort P (getAvailabilitiesOfSections d k (xSol st))) 1 0 = (c, m)"
  shows "addLazyConstraints_k P d k st =
          (if c < getAvailability (getDemand d k) then
             st\<lparr>xSol := (xSol st)(k := fst (lift d (xSol st k) (getAvailability (getDemand d k))
                                        (std_sort P (getAvailabilitiesOfSections d k (xSol st))) m)),
                rejections := rejections st @
                  [nogood d k (fst (lift d (xSol st k) (getAvailability (getDemand d k))
                                     (std_sort P (getAvailabilitiesOfSections d k (xSol st))) m))
                     (take m (map ma_section
                        (std_sort P (getAvailabilitiesOfSections d k (xSol st)))))],
                nbLazyConstraints := nbLazyConstraints st + 1\<rparr>
           else st)"
proof -
  let ?req = "getAvailability (getDemand d k)"
  let ?sa = "std_sort P (getAvailabilitiesOfSections d k (xSol st))"
  obtain xl sal where l: "lift d (xSol st k) ?req ?sa m = (xl, sal)"
    by (cases "lift d (xSol st k) ?req ?sa m")
  have sec: "map ma_section sal = map ma_section ?sa"
    using lift_sections [of d "xSol st k" ?req ?sa m] l by simp
  have m: "m \<le> length ?sa"
    using selectSections_start [OF assms] by blast
  then have "m \<le> length sal"
    using sec by (metis length_map)
  from nogoodExpr_nogood [OF this, of d k xl]
  have e: "nogoodExpr d k xl sal m = getExpr (nogood d k xl (take m (map ma_section ?sa)))"
    unfolding sec .
  have n: "\<lparr>getLB = 1, getExpr = getExpr (nogood d k xl (take m (map ma_section ?sa))),
            getUB = None, getName = Unnamed\<rparr> = nogood d k xl (take m (map ma_section ?sa))"
    by (simp add: nogood_def)
  show ?thesis
    by (simp add: addLazyConstraints_k_def assms l e n Let_def
        incrementLazyConstraints_def rejectCandidate_def)
qed

end
